(* ===== verification/Prelude.thy ===== *)
theory Prelude
  imports Main "HOL-Library.Word" "HOL-Library.AList" "HOL-Library.Sublist"
begin

text \<open>
  Shared vocabulary of the development: machine integers, byte buffers, the errors a C++
  expression can end in, reads through a raw pointer, and the generic lemmas on sums, lists and
  words the component theories rely on.

  Two collections drive the component proofs: \<open>buf_simps\<close> holds the rewrite rules that
  normalise byte buffers (appends, lengths, positioned reads), \<open>err_simps\<close> the rules of the
  error monad.
\<close>

unbundle bit_operations_syntax

named_theorems buf_simps \<open>normal forms of byte buffers and of reads at an offset\<close>
named_theorems err_simps \<open>rules of the error monad\<close>

section \<open>Machine integers, buffers, time\<close>

type_synonym u8 = "8 word"
type_synonym u16 = "16 word"
type_synonym u32 = "32 word"
type_synonym u64 = "64 word"

text \<open>\<^verbatim>\<open>int32_t\<close> and \<^verbatim>\<open>int\<close> are two's complement words, read with \<^const>\<open>sint\<close>.\<close>

type_synonym i32 = "32 word"

text \<open>A \<^verbatim>\<open>float\<close> object is its 32 bits.\<close>

type_synonym f32 = u32

type_synonym bytes = "u8 list"

text \<open>
  A \<^verbatim>\<open>steady_clock::time_point\<close> is its count of nanoseconds. Durations are cast to seconds and
  milliseconds by division that truncates towards zero, as \<^verbatim>\<open>duration_cast\<close> does.
\<close>

type_synonym time_point = int

definition tdiv :: "int \<Rightarrow> int \<Rightarrow> int" where
  "tdiv a b = sgn a * sgn b * (\<bar>a\<bar> div \<bar>b\<bar>)"

definition to_seconds :: "int \<Rightarrow> int" where
  "to_seconds d = tdiv d 1000000000"

definition to_millis :: "int \<Rightarrow> int" where
  "to_millis d = tdiv d 1000000"

section \<open>Errors as values\<close>

text \<open>
  \<open>runtime_error\<close>, \<open>std_invalid_argument\<close> and \<open>std_out_of_range\<close> are the exceptions of those names with their
  \<^verbatim>\<open>what()\<close> string; \<open>json_error\<close> and \<open>system_error\<close> stand for an exception of the JSON library and of asio. The other
  three are undefined behaviour the model makes visible: a read outside the object a pointer points into, the
  dereference of a null pointer, and the use of an object that was destroyed.
\<close>

datatype exn =
    runtime_error string
  | std_invalid_argument string
  | std_out_of_range string
  | json_error string
  | system_error string
  | out_of_bounds
  | null_deref
  | use_after_free

text \<open>Whether \<^verbatim>\<open>catch (const std::exception&)\<close> catches it, and the text it carries.\<close>

fun is_exception :: "exn \<Rightarrow> bool" where
  "is_exception out_of_bounds = False"
| "is_exception null_deref = False"
| "is_exception use_after_free = False"
| "is_exception _ = True"

fun what :: "exn \<Rightarrow> string" where
  "what (runtime_error s) = s"
| "what (std_invalid_argument s) = s"
| "what (std_out_of_range s) = s"
| "what (json_error s) = s"
| "what (system_error s) = s"
| "what _ = ''''"

fun ebind :: "exn + 'a \<Rightarrow> ('a \<Rightarrow> exn + 'b) \<Rightarrow> exn + 'b" where
  "ebind (Inl e) f = Inl e"
| "ebind (Inr x) f = f x"

section \<open>Reads through a pointer into a buffer\<close>

definition byte_at :: "bytes \<Rightarrow> nat \<Rightarrow> exn + u8" where
  "byte_at buf i = (if i < length buf then Inr (buf ! i) else Inl out_of_bounds)"

text \<open>The half-open range \<^verbatim>\<open>[ptr + i, ptr + i + n)\<close> of a buffer.\<close>

definition byte_range :: "bytes \<Rightarrow> nat \<Rightarrow> nat \<Rightarrow> exn + bytes" where
  "byte_range buf i n =
     (if i + n \<le> length buf then Inr (take n (drop i buf)) else Inl out_of_bounds)"

text \<open>Writing \<open>xs\<close> into a buffer from position \<open>i\<close> on (the caller provides the room).\<close>

definition overwrite :: "bytes \<Rightarrow> nat \<Rightarrow> bytes \<Rightarrow> bytes" where
  "overwrite buf i xs = take i buf @ xs @ drop (i + length xs) buf"

text \<open>\<^verbatim>\<open>std::vector::resize\<close>: cut off, or fill up with zero bytes.\<close>

definition resize :: "bytes \<Rightarrow> nat \<Rightarrow> bytes" where
  "resize buf n = take n buf @ replicate (n - length buf) 0"

section \<open>Containers\<close>

text \<open>
  A \<^verbatim>\<open>std::unordered_map\<close> is the association list of its entries in iteration order: \<^verbatim>\<open>m[k] = v\<close> is
  \<^const>\<open>AList.update\<close>, \<^verbatim>\<open>erase\<close> is \<^const>\<open>AList.delete\<close>, \<^verbatim>\<open>find\<close> is \<^const>\<open>map_of\<close>. The order is unspecified in
  C++, so properties of iterations are stated for every order.

  A \<^verbatim>\<open>std::map\<close> is the association list of its entries in increasing order of the keys.
\<close>

fun omap_insert :: "'k::linorder \<Rightarrow> 'v \<Rightarrow> ('k \<times> 'v) list \<Rightarrow> ('k \<times> 'v) list" where
  "omap_insert k v [] = [(k, v)]"
| "omap_insert k v ((k', v') # xs) =
     (if k < k' then (k, v) # (k', v') # xs
      else if k = k' then (k, v) # xs
      else (k', v') # omap_insert k v xs)"

section \<open>Lemmas\<close>

subsection \<open>Ordered maps\<close>

lemma set_omap_insert: "fst ` set (omap_insert k v xs) = insert k (fst ` set xs)"
  by (induction k v xs rule: omap_insert.induct) auto

lemma omap_insert_sorted: "sorted_wrt (<) (map fst xs) \<Longrightarrow> sorted_wrt (<) (map fst (omap_insert k v xs))"
proof (induction k v xs rule: omap_insert.induct)
  case (2 k v k' v' xs)
  then show ?case
    using set_omap_insert [of k v xs] by (auto simp: image_iff dest: less_trans)
qed simp

lemma map_of_omap_insert:
  "sorted_wrt (<) (map fst xs) \<Longrightarrow> map_of (omap_insert k v xs) = (map_of xs)(k \<mapsto> v)"
proof (induction k v xs rule: omap_insert.induct)
  case (2 k v k' v' xs)
  then show ?case by (auto simp: fun_eq_iff)
qed simp

lemma omap_delete_sorted: "sorted_wrt (<) (map fst xs) \<Longrightarrow> sorted_wrt (<) (map fst (AList.delete k xs))"
  by (induction xs) (auto simp: AList.delete_eq)

lemma in_set_delete: "x \<in> set (AList.delete k xs) \<longleftrightarrow> fst x \<noteq> k \<and> x \<in> set xs"
  by (auto simp: AList.delete_eq)

lemma sorted_wrt_distinct: "sorted_wrt (<) (xs :: 'k::linorder list) \<Longrightarrow> distinct xs"
  by (induction xs) auto

subsection \<open>The error monad\<close>

declare ebind.simps [err_simps]

lemma ebind_Inr_iff [err_simps]:
  "ebind m f = Inr y \<longleftrightarrow> (\<exists>x. m = Inr x \<and> f x = Inr y)"
  by (cases m) auto

lemma ebind_Inl_iff [err_simps]:
  "ebind m f = Inl e \<longleftrightarrow> m = Inl e \<or> (\<exists>x. m = Inr x \<and> f x = Inl e)"
  by (cases m) auto

lemma ebind_assoc: "ebind (ebind m f) g = ebind m (\<lambda>x. ebind (f x) g)"
  by (cases m) auto

lemma ebind_cong [fundef_cong]:
  "m = m' \<Longrightarrow> (\<And>x. m' = Inr x \<Longrightarrow> f x = g x) \<Longrightarrow> ebind m f = ebind m' g"
  by (cases m') auto

subsection \<open>Reads\<close>

lemma byte_at_in [buf_simps]: "i < length buf \<Longrightarrow> byte_at buf i = Inr (buf ! i)"
  by (simp add: byte_at_def)

lemma byte_at_out [buf_simps]: "length buf \<le> i \<Longrightarrow> byte_at buf i = Inl out_of_bounds"
  by (simp add: byte_at_def)

lemma byte_at_eq_Inl [simp]: "byte_at buf i = Inl e \<longleftrightarrow> e = out_of_bounds \<and> length buf \<le> i"
  by (auto simp: byte_at_def)

lemma byte_range_in [buf_simps]:
  "i + n \<le> length buf \<Longrightarrow> byte_range buf i n = Inr (take n (drop i buf))"
  by (simp add: byte_range_def)

lemma byte_range_out [buf_simps]:
  "length buf < i + n \<Longrightarrow> byte_range buf i n = Inl out_of_bounds"
  by (simp add: byte_range_def)

lemma byte_range_append:
  "length xs = i \<Longrightarrow> length ys = n \<Longrightarrow> byte_range (xs @ ys @ zs) i n = Inr ys"
  by (simp add: byte_range_def)

lemma length_overwrite [simp]:
  "i + length xs \<le> length buf \<Longrightarrow> length (overwrite buf i xs) = length buf"
  by (simp add: overwrite_def)

lemma take_overwrite:
  "i + length xs \<le> length buf \<Longrightarrow> take (i + length xs) (overwrite buf i xs) = take i buf @ xs"
  by (simp add: overwrite_def)

lemma overwrite_slice:
  "i \<le> length buf \<Longrightarrow> take (length xs) (drop i (overwrite buf i xs)) = xs"
  by (simp add: overwrite_def)

lemma take_overwrite_front:
  "n \<le> i \<Longrightarrow> i \<le> length buf \<Longrightarrow> take n (overwrite buf i xs) = take n buf"
  by (simp add: overwrite_def min_absorb1)

lemma length_resize [simp]: "length (resize buf n) = n"
  by (simp add: resize_def)

lemma take_resize: "k \<le> length buf \<Longrightarrow> k \<le> n \<Longrightarrow> take k (resize buf n) = take k buf"
  by (simp add: resize_def min_absorb1)

subsection \<open>Durations\<close>

lemma tdiv_pos: "0 \<le> a \<Longrightarrow> 0 < b \<Longrightarrow> tdiv a b = a div b"
  by (cases "a = 0") (auto simp: tdiv_def)

lemma to_seconds_ge_iff:
  assumes "0 < n"
  shows "n \<le> to_seconds d \<longleftrightarrow> n * 1000000000 \<le> d"
proof (cases "0 \<le> d")
  case True
  then show ?thesis by (simp add: to_seconds_def tdiv_pos) linarith
next
  case False
  then have "to_seconds d \<le> 0"
    by (simp add: to_seconds_def tdiv_def pos_imp_zdiv_nonneg_iff)
  with False assms show ?thesis by linarith
qed

subsection \<open>Words\<close>

text \<open>Every byte of a wider word can be read off its bits, and put back at its place.\<close>

lemma bit_byte_of_word:
  fixes w :: "'a::len word"
  shows "bit (ucast (drop_bit k w AND 255) :: u8) n \<longleftrightarrow> n < 8 \<and> bit w (k + n)"
proof -
  have m: "(255 :: 'a word) = mask 8"
    by (simp add: mask_eq_exp_minus_1)
  show ?thesis
    unfolding m by (auto simp: bit_simps dest: bit_imp_le_length)
qed

lemma bit_low_byte:
  fixes w :: "'a::len word"
  shows "bit (ucast (w AND 255) :: u8) n \<longleftrightarrow> n < 8 \<and> bit w n"
  using bit_byte_of_word [of 0 w n] by simp

lemma bit_placed_byte:
  "bit (push_bit k (ucast b) :: 'a::len word) n \<longleftrightarrow> n < LENGTH('a) \<and> k \<le> n \<and> bit (b :: u8) (n - k)"
  by (auto simp: bit_simps)

lemma bit_widened:
  "bit (ucast b :: 'a::len word) n \<longleftrightarrow> n < LENGTH('a) \<and> bit (b :: u8) n"
  by (auto simp: bit_simps)

lemma byte_high_bit: "8 \<le> n \<Longrightarrow> \<not> bit (b :: u8) n"
  using bit_imp_le_length [of b n] by auto

lemmas byte_bits = byte_high_bit bit_drop_bit_eq comp_def bit_low_byte bit_placed_byte bit_widened bit_or_iff

end
