(* ===== verification/ByteSerializer.thy ===== *)
theory ByteSerializer
  imports Prelude
begin

text \<open>
  The big-endian codecs of \<^verbatim>\<open>include/core/utils/ByteSerializer.hpp\<close>. A writer appends to a buffer;
  a reader takes the buffer its pointer points into and the offset of the pointer, and fails with
  \<^const>\<open>out_of_bounds\<close> where the C++ would read past the end. A \<^verbatim>\<open>float\<close> is its bit pattern, which is
  what the \<^verbatim>\<open>memcpy\<close> of the source moves.

  The locale \<open>fixed_codec\<close> states what a fixed-width codec promises; all four codecs interpret it.
\<close>

section \<open>Operations\<close>

definition write_u16_be :: "bytes \<Rightarrow> u16 \<Rightarrow> bytes" where
  "write_u16_be buf val = buf @ [ucast (drop_bit 8 val AND 0xFF), ucast (val AND 0xFF)]"

definition read_u16_be :: "bytes \<Rightarrow> nat \<Rightarrow> exn + u16" where
  "read_u16_be buf i =
     ebind (byte_at buf i) (\<lambda>b0.
     ebind (byte_at buf (i + 1)) (\<lambda>b1.
     Inr (push_bit 8 (ucast b0) OR ucast b1)))"

definition write_u32_be :: "bytes \<Rightarrow> u32 \<Rightarrow> bytes" where
  "write_u32_be buf val =
     buf @ [ucast (drop_bit 24 val AND 0xFF), ucast (drop_bit 16 val AND 0xFF),
            ucast (drop_bit 8 val AND 0xFF), ucast (val AND 0xFF)]"

definition read_u32_be :: "bytes \<Rightarrow> nat \<Rightarrow> exn + u32" where
  "read_u32_be buf i =
     ebind (byte_at buf i) (\<lambda>b0.
     ebind (byte_at buf (i + 1)) (\<lambda>b1.
     ebind (byte_at buf (i + 2)) (\<lambda>b2.
     ebind (byte_at buf (i + 3)) (\<lambda>b3.
     Inr (push_bit 24 (ucast b0) OR push_bit 16 (ucast b1) OR push_bit 8 (ucast b2) OR ucast b3)))))"

definition write_u64_be :: "bytes \<Rightarrow> u64 \<Rightarrow> bytes" where
  "write_u64_be buf val =
     write_u32_be (write_u32_be buf (ucast (drop_bit 32 val))) (ucast (val AND 0xFFFFFFFF))"

definition read_u64_be :: "bytes \<Rightarrow> nat \<Rightarrow> exn + u64" where
  "read_u64_be buf i =
     ebind (read_u32_be buf i) (\<lambda>hi.
     ebind (read_u32_be buf (i + 4)) (\<lambda>lo.
     Inr (push_bit 32 (ucast hi) OR ucast lo)))"

text \<open>\<^verbatim>\<open>memcpy\<close> between a \<^verbatim>\<open>float\<close> and a \<^verbatim>\<open>uint32_t\<close> keeps the 32 bits.\<close>

definition write_float_be :: "bytes \<Rightarrow> f32 \<Rightarrow> bytes" where
  "write_float_be buf val = write_u32_be buf val"

definition read_float_be :: "bytes \<Rightarrow> nat \<Rightarrow> exn + f32" where
  "read_float_be buf i = read_u32_be buf i"

section \<open>The contract of a fixed-width codec\<close>

locale fixed_codec =
  fixes put :: "bytes \<Rightarrow> 'a \<Rightarrow> bytes"
    and get :: "bytes \<Rightarrow> nat \<Rightarrow> exn + 'a"
    and width :: nat
  assumes put_append: "put buf v = buf @ put [] v"
    and length_put: "length (put [] v) = width"
    and get_put: "get (xs @ put [] v @ ys) (length xs) = Inr v"
    and get_out: "length buf < i + width \<Longrightarrow> get buf i = Inl out_of_bounds"
    and put_get: "i + width \<le> length buf \<Longrightarrow>
      \<exists>v. get buf i = Inr v \<and> put [] v = take width (drop i buf)"
begin

lemma length_put_buf: "length (put buf v) = length buf + width"
  by (subst put_append) (simp add: length_put)

lemma get_at:
  assumes "length xs = i"
  shows "get (xs @ put [] v @ ys) i = Inr v"
  using get_put assms by blast

lemma get_at_end:
  assumes "length xs = i"
  shows "get (xs @ put [] v) i = Inr v"
  using get_at [OF assms, of v "[]"] by simp

lemma get_front: "get (put [] v @ ys) 0 = Inr v"
  using get_at [of "[]" 0] by simp

lemma put_inj: "put buf v = put buf w \<longleftrightarrow> v = w"
proof
  assume "put buf v = put buf w"
  then have "put [] v = put [] w"
    by (simp add: put_append [of buf])
  then have "get (put [] v @ []) 0 = get (put [] w @ []) 0"
    by simp
  then show "v = w"
    by (simp only: get_front sum.inject)
qed simp

text \<open>A read either succeeds or runs past the end; which one depends on the length only.\<close>

lemma get_ok_iff: "(\<exists>v. get buf i = Inr v) \<longleftrightarrow> i + width \<le> length buf"
  using get_out put_get by (metis Inl_Inr_False linorder_not_le)

lemma get_error_iff: "get buf i = Inl e \<longleftrightarrow> e = out_of_bounds \<and> length buf < i + width"
proof (cases "i + width \<le> length buf")
  case True
  then obtain v where "get buf i = Inr v"
    using put_get by blast
  with True show ?thesis by simp
next
  case False
  then show ?thesis by (auto simp: get_out)
qed

text \<open>What a successful read returns is determined by the bytes it reads.\<close>

lemma get_slice:
  assumes "i + width \<le> length buf" and "take width (drop i buf) = put [] v"
  shows "get buf i = Inr v"
proof -
  obtain w where w: "get buf i = Inr w" "put [] w = take width (drop i buf)"
    using put_get [OF assms(1)] by blast
  with assms(2) have "w = v" by (simp add: put_inj)
  with w show ?thesis by simp
qed

end

section \<open>The four codecs keep the contract\<close>

lemma u16_of_bytes:
  "push_bit 8 (ucast (ucast (drop_bit 8 v AND 0xFF) :: u8)) OR ucast (ucast (v AND 0xFF) :: u8) = (v :: u16)"
  (is "?w = v")
proof (rule bit_word_eqI)
  fix n assume "n < LENGTH(16)"
  then have "n < 8 \<or> 8 \<le> n \<and> n - 8 < 8" by auto
  then show "bit ?w n = bit v n"
    by (auto simp: byte_bits dest: bit_imp_le_length)
qed

lemma u32_of_bytes:
  "push_bit 24 (ucast (ucast (drop_bit 24 v AND 0xFF) :: u8)) OR
   push_bit 16 (ucast (ucast (drop_bit 16 v AND 0xFF) :: u8)) OR
   push_bit 8 (ucast (ucast (drop_bit 8 v AND 0xFF) :: u8)) OR
   ucast (ucast (v AND 0xFF) :: u8) = (v :: u32)" (is "?w = v")
proof (rule bit_word_eqI)
  fix n assume "n < LENGTH(32)"
  then consider "n < 8" | "8 \<le> n" "n < 16" | "16 \<le> n" "n < 24" | "24 \<le> n" "n < 32"
    by fastforce
  then show "bit ?w n = bit v n"
    by cases (auto simp: byte_bits dest: bit_imp_le_length)
qed

lemma bytes_of_u16:
  fixes a b :: u8
  defines "v \<equiv> push_bit 8 (ucast a) OR ucast b :: u16"
  shows "ucast (drop_bit 8 v AND 0xFF) = a" and "ucast (v AND 0xFF) = b"
  unfolding v_def by (auto intro!: bit_word_eqI simp: byte_bits dest: bit_imp_le_length)

lemma bytes_of_u32:
  fixes a b c d :: u8
  defines "v \<equiv> push_bit 24 (ucast a) OR push_bit 16 (ucast b) OR push_bit 8 (ucast c) OR ucast d :: u32"
  shows "ucast (drop_bit 24 v AND 0xFF) = a" and "ucast (drop_bit 16 v AND 0xFF) = b"
    and "ucast (drop_bit 8 v AND 0xFF) = c" and "ucast (v AND 0xFF) = d"
  unfolding v_def by (auto intro!: bit_word_eqI simp: byte_bits dest: bit_imp_le_length)

subsection \<open>16 and 32 bits\<close>

lemma read_u16_be_in:
  "i + 2 \<le> length buf \<Longrightarrow>
     read_u16_be buf i = Inr (push_bit 8 (ucast (buf ! i)) OR ucast (buf ! (i + 1)))"
  by (simp add: read_u16_be_def byte_at_def)

lemma read_u32_be_in:
  "i + 4 \<le> length buf \<Longrightarrow>
     read_u32_be buf i = Inr (push_bit 24 (ucast (buf ! i)) OR push_bit 16 (ucast (buf ! (i + 1))) OR
       push_bit 8 (ucast (buf ! (i + 2))) OR ucast (buf ! (i + 3)))"
  by (simp add: read_u32_be_def byte_at_def)

lemma read_u32_be_take4:
  assumes "take 4 xs = take 4 ys" "4 \<le> length xs" "4 \<le> length ys"
  shows "read_u32_be xs 0 = read_u32_be ys 0"
proof -
  have "xs ! k = ys ! k" if "k < 4" for k
    using arg_cong [OF assms(1), of "\<lambda>zs. zs ! k"] that by simp
  with assms(2,3) show ?thesis
    by (simp add: read_u32_be_in)
qed

lemma take2_drop:
  "i + 2 \<le> length buf \<Longrightarrow> take 2 (drop i buf) = [buf ! i, buf ! (i + 1)]"
  by (rule nth_equalityI) (auto simp: nth_append less_Suc_eq numeral_2_eq_2)

lemma take4_drop:
  "i + 4 \<le> length buf \<Longrightarrow> take 4 (drop i buf) = [buf ! i, buf ! (i + 1), buf ! (i + 2), buf ! (i + 3)]"
  by (rule nth_equalityI) (auto simp: nth_append less_Suc_eq eval_nat_numeral)

lemma write_u16_of_bytes: "write_u16_be [] (push_bit 8 (ucast a) OR ucast b) = [a, b]"
  by (simp only: write_u16_be_def bytes_of_u16 append_Nil)

lemma write_u32_of_bytes:
  "write_u32_be [] (push_bit 24 (ucast a) OR push_bit 16 (ucast b) OR push_bit 8 (ucast c) OR ucast d) = [a, b, c, d]"
  by (simp only: write_u32_be_def bytes_of_u32 append_Nil)

interpretation u16: fixed_codec write_u16_be read_u16_be 2
proof
  show "i + 2 \<le> length buf \<Longrightarrow> \<exists>v. read_u16_be buf i = Inr v \<and> write_u16_be [] v = take 2 (drop i buf)"
    for i buf
    by (intro exI conjI, erule read_u16_be_in) (simp only: write_u16_of_bytes take2_drop)
qed (simp_all add: write_u16_be_def read_u16_be_def byte_at_def nth_append u16_of_bytes)

interpretation u32: fixed_codec write_u32_be read_u32_be 4
proof
  show "i + 4 \<le> length buf \<Longrightarrow> \<exists>v. read_u32_be buf i = Inr v \<and> write_u32_be [] v = take 4 (drop i buf)"
    for i buf
    by (intro exI conjI, erule read_u32_be_in) (simp only: write_u32_of_bytes take4_drop)
qed (simp_all add: write_u32_be_def read_u32_be_def byte_at_def nth_append u32_of_bytes)

subsection \<open>64 bits and floats, from the 32-bit codec\<close>

lemma u64_of_halves:
  "push_bit 32 (ucast (ucast (drop_bit 32 v) :: u32)) OR ucast (ucast (v AND 0xFFFFFFFF) :: u32) = (v :: u64)"
  (is "?w = v")
proof (rule bit_word_eqI)
  have m: "(0xFFFFFFFF :: u64) = mask 32"
    by (simp add: mask_eq_exp_minus_1)
  fix n assume "n < LENGTH(64)"
  then show "bit ?w n = bit v n"
    unfolding m by (cases "n < 32") (auto simp: bit_simps)
qed

lemma halves_of_u64:
  fixes a b :: u32
  defines "v \<equiv> push_bit 32 (ucast a) OR ucast b :: u64"
  shows "ucast (drop_bit 32 v) = a" and "ucast (v AND 0xFFFFFFFF) = b"
proof -
  have m: "(0xFFFFFFFF :: u64) = mask 32"
    by (simp add: mask_eq_exp_minus_1)
  have high: "\<not> bit b (32 + n)" for n
    using bit_imp_le_length [of b "32 + n"] by auto
  show "ucast (drop_bit 32 v) = a" and "ucast (v AND 0xFFFFFFFF) = b"
    unfolding v_def m
    by (auto intro!: bit_word_eqI simp: bit_simps high)
qed

lemma write_u64_be_app:
  "write_u64_be buf v = buf @ write_u32_be [] (ucast (drop_bit 32 v)) @ write_u32_be [] (ucast (v AND 0xFFFFFFFF))"
  unfolding write_u64_be_def by (subst u32.put_append, subst u32.put_append) simp

interpretation u64: fixed_codec write_u64_be read_u64_be 8
proof
  fix buf xs ys :: bytes and v :: u64 and i
  show "write_u64_be buf v = buf @ write_u64_be [] v"
    by (simp add: write_u64_be_app)
  show "length (write_u64_be [] v) = 8"
    by (simp add: write_u64_be_app u32.length_put)
  show "read_u64_be (xs @ write_u64_be [] v @ ys) (length xs) = Inr v"
  proof -
    have "read_u32_be (xs @ write_u64_be [] v @ ys) (length xs) = Inr (ucast (drop_bit 32 v))"
      by (simp add: write_u64_be_app u32.get_at)
    moreover have "read_u32_be (xs @ write_u64_be [] v @ ys) (length xs + 4) = Inr (ucast (v AND 0xFFFFFFFF))"
      using u32.get_at [of "xs @ write_u32_be [] (ucast (drop_bit 32 v))" "length xs + 4" "ucast (v AND 0xFFFFFFFF)" ys]
      by (simp add: write_u64_be_app u32.length_put)
    ultimately show ?thesis
      by (simp add: read_u64_be_def u64_of_halves)
  qed
  show "read_u64_be buf i = Inl out_of_bounds" if "length buf < i + 8"
    using that by (simp add: read_u64_be_def err_simps u32.get_error_iff u32.get_ok_iff) linarith
  show "\<exists>v. read_u64_be buf i = Inr v \<and> write_u64_be [] v = take 8 (drop i buf)" if le: "i + 8 \<le> length buf"
  proof -
    obtain a where a: "read_u32_be buf i = Inr a" "write_u32_be [] a = take 4 (drop i buf)"
      using u32.put_get [of i buf] le by auto
    obtain b where b: "read_u32_be buf (i + 4) = Inr b" "write_u32_be [] b = take 4 (drop (i + 4) buf)"
      using u32.put_get [of "i + 4" buf] le by auto
    have "take 8 (drop i buf) = take 4 (drop i buf) @ take 4 (drop (i + 4) buf)"
      using take_add [of 4 4 "drop i buf"] by (simp add: add.commute)
    with a b show ?thesis
      by (simp add: read_u64_be_def write_u64_be_app halves_of_u64 del: drop_bit_or)
  qed
qed

interpretation float: fixed_codec write_float_be read_float_be 4
  unfolding write_float_be_def [abs_def] read_float_be_def [abs_def] by (rule u32.fixed_codec_axioms)

lemmas codec_reads =
  u16.get_at u32.get_at u64.get_at float.get_at
  u16.get_at_end u32.get_at_end u64.get_at_end float.get_at_end
  u16.get_front u32.get_front u64.get_front float.get_front

lemmas codec_lengths [simp] =
  u16.length_put_buf u32.length_put_buf u64.length_put_buf float.length_put_buf

section \<open>Properties\<close>

text \<open>Reading back at the place a value was written gives the value, for all four codecs and whatever the
  buffer holds before and after it.\<close>

lemma big_endian_roundtrip:
  "read_u16_be (write_u16_be buf a @ rest) (length buf) = Inr a \<and>
   read_u32_be (write_u32_be buf b @ rest) (length buf) = Inr b \<and>
   read_u64_be (write_u64_be buf c @ rest) (length buf) = Inr c \<and>
   read_float_be (write_float_be buf d @ rest) (length buf) = Inr d"
  by (simp add: u16.put_append [of buf] u32.put_append [of buf] u64.put_append [of buf] float.put_append [of buf]
      u16.get_put u32.get_put u64.get_put float.get_put)

text \<open>A read succeeds exactly when all its bytes are in the buffer, and then writing the value again
  reproduces those bytes; otherwise it is an out-of-bounds read.\<close>

lemma big_endian_reads_exact:
  "(if i + 2 \<le> length buf then \<exists>v. read_u16_be buf i = Inr v \<and> write_u16_be [] v = take 2 (drop i buf)
    else read_u16_be buf i = Inl out_of_bounds) \<and>
   (if i + 4 \<le> length buf then \<exists>v. read_u32_be buf i = Inr v \<and> write_u32_be [] v = take 4 (drop i buf)
    else read_u32_be buf i = Inl out_of_bounds) \<and>
   (if i + 8 \<le> length buf then \<exists>v. read_u64_be buf i = Inr v \<and> write_u64_be [] v = take 8 (drop i buf)
    else read_u64_be buf i = Inl out_of_bounds)"
  using u16.put_get [of i buf] u16.get_out [of buf i] u32.put_get [of i buf] u32.get_out [of buf i]
    u64.put_get [of i buf] u64.get_out [of buf i]
  by simp

end
