(* ===== verification/Messages.thy ===== *)
theory Messages
  imports ByteSerializer
begin

text \<open>
  The data every component exchanges: \<^verbatim>\<open>MessageType\<close>, \<^verbatim>\<open>Header\<close> and \<^verbatim>\<open>Message\<close> of
  \<^verbatim>\<open>include/core/message\<close>, and the constructor of \<^verbatim>\<open>src/core/message/Message.cpp\<close>.

  \<^verbatim>\<open>MessageType\<close> is an enumeration with the fixed underlying type \<^verbatim>\<open>uint16_t\<close>: the wire may carry, and
  \<^verbatim>\<open>static_cast\<close> may produce, any of the 65536 values. The model keeps all of them; the eight
  enumerators are named values.
\<close>

datatype MessageType = MessageType (type_code: u16)

definition HELLO :: MessageType where "HELLO = MessageType 0x0001"
definition HEARTBEAT :: MessageType where "HEARTBEAT = MessageType 0x0002"
definition STATE :: MessageType where "STATE = MessageType 0x0003"
definition CMD_START :: MessageType where "CMD_START = MessageType 0x1001"
definition CMD_STOP :: MessageType where "CMD_STOP = MessageType 0x1002"
definition CMD_SET_MODE :: MessageType where "CMD_SET_MODE = MessageType 0x1003"
definition ACK :: MessageType where "ACK = MessageType 0x2001"
definition NACK :: MessageType where "NACK = MessageType 0x2002"

lemmas message_type_defs =
  HELLO_def HEARTBEAT_def STATE_def CMD_START_def CMD_STOP_def CMD_SET_MODE_def ACK_def NACK_def

record Header =
  msg_type :: MessageType
  agent_id :: u32
  header_id :: u32
  timestamp :: u64
  payload_len :: u32
  flags :: u8

text \<open>\<^verbatim>\<open>Header::size()\<close>: 4 (length) + 2 (type) + 1 (flags) + 4 (agent) + 4 (id) + 8 (timestamp).\<close>

definition Header_size :: nat where
  "Header_size = 4 + 2 + 1 + 4 + 4 + 8"

record Message =
  header :: Header
  payload :: bytes
  crc32 :: u32

text \<open>The constructor; \<open>now_ms\<close> is the reading of \<^verbatim>\<open>system_clock\<close> in milliseconds.\<close>

definition new_Message :: "u64 \<Rightarrow> MessageType \<Rightarrow> bytes \<Rightarrow> u32 \<Rightarrow> u32 \<Rightarrow> u8 \<Rightarrow> Message" where
  "new_Message now_ms ty pl aid hid fl =
     \<lparr>header = \<lparr>msg_type = ty, agent_id = aid, header_id = hid, timestamp = now_ms,
                payload_len = word_of_nat (length pl), flags = fl\<rparr>,
      payload = pl, crc32 = 0\<rparr>"

text \<open>
  A message whose length field tells the truth and whose frame length fits the 32-bit arithmetic
  of the parser. Every message the program builds is of this kind.
\<close>

definition wf_message :: "Message \<Rightarrow> bool" where
  "wf_message m \<longleftrightarrow>
     unat (payload_len (header m)) = length (payload m) \<and> length (payload m) + Header_size + 4 < 2 ^ 32"

lemma message_types_distinct [simp]:
  "distinct [HELLO, HEARTBEAT, STATE, CMD_START, CMD_STOP, CMD_SET_MODE, ACK, NACK]"
  by (simp add: message_type_defs)

lemma Header_size_eq [simp]: "Header_size = 23"
  by (simp add: Header_size_def)

lemma wf_new_Message:
  "length pl < 2 ^ 32 - 27 \<Longrightarrow> wf_message (new_Message now ty pl aid hid fl)"
  by (simp add: wf_message_def new_Message_def unat_of_nat)

end
