(* ===== verification/Crc32.thy ===== *)
theory Crc32
  imports Messages
begin

text \<open>
  \<^verbatim>\<open>BinaryMessageParser::compute_crc32\<close>: the reflected CRC-32 (polynomial \<open>0xEDB88320\<close>), bit by bit.
  The lemmas show that one bit step is linear over exclusive or and injective, that up to four
  bytes enter the register as one word, and hence that a change confined to four consecutive bytes
  always changes the checksum.
\<close>

section \<open>The algorithm\<close>

definition crc_bit :: "u32 \<Rightarrow> u32" where
  "crc_bit crc = (if crc AND 1 \<noteq> 0 then drop_bit 1 crc XOR 0xEDB88320 else drop_bit 1 crc)"

definition crc_byte :: "u32 \<Rightarrow> u8 \<Rightarrow> u32" where
  "crc_byte crc b = (crc_bit ^^ 8) (crc XOR ucast b)"

definition compute_crc32 :: "bytes \<Rightarrow> u32" where
  "compute_crc32 data = NOT (foldl crc_byte 0xFFFFFFFF data)"

section \<open>One bit step\<close>

lemma crc_bit_alt:
  "crc_bit c = drop_bit 1 c XOR (if bit c 0 then 0xEDB88320 else 0)"
proof -
  have "c AND 1 \<noteq> 0 \<longleftrightarrow> bit c 0"
    by (simp add: and_one_eq mod_2_eq_odd bit_0)
  then show ?thesis
    by (simp add: crc_bit_def)
qed

lemma crc_bit_xor: "crc_bit (a XOR b) = crc_bit a XOR crc_bit b"
  by (simp add: crc_bit_alt bit_xor_iff ac_simps)

lemma crc_bit_kernel: "crc_bit c = 0 \<longleftrightarrow> c = 0"
proof
  assume z: "crc_bit c = 0"
  have "bit (crc_bit c) 31 \<longleftrightarrow> bit c 0"
    using bit_imp_le_length [of c 32]
    by (auto simp: crc_bit_alt bit_xor_iff bit_drop_bit_eq)
  with z have c0: "\<not> bit c 0" by simp
  with z have d: "drop_bit 1 c = 0"
    by (simp add: crc_bit_alt)
  show "c = 0"
  proof (rule bit_word_eqI)
    fix n
    have "bit c (Suc m) = bit (drop_bit 1 c) m" for m
      by (simp add: bit_drop_bit_eq)
    with d c0 show "bit c n = bit 0 n"
      by (cases n) simp_all
  qed
qed (simp add: crc_bit_def)

section \<open>Iterated steps\<close>

lemma crc_iter_xor: "(crc_bit ^^ n) (a XOR b) = (crc_bit ^^ n) a XOR (crc_bit ^^ n) b"
  by (induction n) (simp_all add: crc_bit_xor)

lemma crc_iter_kernel: "(crc_bit ^^ n) c = 0 \<longleftrightarrow> c = 0"
  by (induction n) (simp_all add: crc_bit_kernel)

lemma xor_eq_zero_iff: "a XOR b = 0 \<longleftrightarrow> a = (b :: 'a::len word)"
proof
  assume "a XOR b = 0"
  then have "(a XOR b) XOR b = b" by simp
  then show "a = b" by (simp add: xor.assoc)
qed simp

lemma crc_iter_inj: "(crc_bit ^^ n) a = (crc_bit ^^ n) b \<longleftrightarrow> a = b"
proof -
  have "(crc_bit ^^ n) a = (crc_bit ^^ n) b \<longleftrightarrow> (crc_bit ^^ n) (a XOR b) = 0"
    by (simp add: crc_iter_xor xor_eq_zero_iff)
  then show ?thesis
    by (simp add: crc_iter_kernel xor_eq_zero_iff)
qed

section \<open>Up to four bytes as one word\<close>

text \<open>The bytes of a list as a little-endian word.\<close>

fun le_word :: "bytes \<Rightarrow> u32" where
  "le_word [] = 0"
| "le_word (b # bs) = ucast b XOR push_bit 8 (le_word bs)"

lemma le_word_bits: "bit (le_word bs) k \<Longrightarrow> k < 8 * length bs"
proof (induction bs arbitrary: k)
  case (Cons b bs)
  then show ?case
    using Cons.IH [of "k - 8"] bit_imp_le_length [of b k]
    by (fastforce simp: bit_xor_iff bit_push_bit_iff bit_widened)
qed simp

lemma crc_bit_push:
  assumes "\<And>k. bit x k \<Longrightarrow> k + Suc n < 32"
  shows "crc_bit (push_bit (Suc n) x) = push_bit n x"
proof -
  have "drop_bit 1 (push_bit (Suc n) x) = push_bit n x"
  proof (rule bit_word_eqI)
    fix k
    show "bit (drop_bit 1 (push_bit (Suc n) x)) k = bit (push_bit n x) k"
      using assms [of "k - n"] by (auto simp: bit_drop_bit_eq bit_push_bit_iff simp del: push_bit_Suc)
  qed
  then show ?thesis
    by (simp add: crc_bit_alt bit_push_bit_iff del: push_bit_Suc)
qed

lemma crc_iter_push:
  "(\<And>k. bit x k \<Longrightarrow> k + n < 32) \<Longrightarrow> (crc_bit ^^ n) (push_bit n x) = x"
proof (induction n)
  case (Suc n)
  have "(crc_bit ^^ Suc n) (push_bit (Suc n) x) = (crc_bit ^^ n) (crc_bit (push_bit (Suc n) x))"
    by (simp only: funpow_Suc_right comp_apply)
  also have "\<dots> = (crc_bit ^^ n) (push_bit n x)"
    using Suc.prems by (simp only: crc_bit_push)
  also have "\<dots> = x"
    by (rule Suc.IH) (use Suc.prems in fastforce)
  finally show ?case .
qed simp

lemma crc_bytes_as_word:
  "length bs \<le> 4 \<Longrightarrow> foldl crc_byte c bs = (crc_bit ^^ (8 * length bs)) (c XOR le_word bs)"
proof (induction bs arbitrary: c)
  case (Cons b bs)
  have "(crc_bit ^^ 8) (push_bit 8 (le_word bs)) = le_word bs"
    by (rule crc_iter_push) (use le_word_bits [of bs] Cons.prems in fastforce)
  then have "crc_byte c b XOR le_word bs = (crc_bit ^^ 8) (c XOR le_word (b # bs))"
    by (simp add: crc_byte_def crc_iter_xor xor.assoc)
  moreover have "foldl crc_byte c (b # bs) = (crc_bit ^^ (8 * length bs)) (crc_byte c b XOR le_word bs)"
    using Cons by simp
  moreover have "(crc_bit ^^ (8 * length (b # bs))) w = (crc_bit ^^ (8 * length bs)) ((crc_bit ^^ 8) w)" for w
    using funpow_add [of "8 * length bs" 8 crc_bit] by (simp add: add.commute)
  ultimately show ?case by simp
qed simp

lemma le_word_inj:
  "length xs = length ys \<Longrightarrow> length ys \<le> 4 \<Longrightarrow> le_word xs = le_word ys \<longleftrightarrow> xs = ys"
proof (induction xs ys rule: list_induct2)
  case (Cons x xs y ys)
  have low: "bit (le_word (b # bs)) n = bit b n" if "n < 8" for b bs n
    using that by (simp add: bit_xor_iff bit_push_bit_iff bit_widened)
  have high: "drop_bit 8 (le_word (b # bs)) = le_word bs" if "length bs \<le> 3" for b bs
  proof (rule bit_word_eqI)
    fix n
    show "bit (drop_bit 8 (le_word (b # bs))) n = bit (le_word bs) n"
      using le_word_bits [of bs n] that
      by (auto simp: bit_drop_bit_eq bit_xor_iff bit_push_bit_iff bit_widened byte_high_bit)
  qed
  show ?case
  proof
    assume eq: "le_word (x # xs) = le_word (y # ys)"
    have "x = y"
      by (rule bit_word_eqI) (use low [of _ x xs] low [of _ y ys] eq in simp)
    moreover have "le_word xs = le_word ys"
      using high [of xs x] high [of ys y] eq Cons.hyps Cons.prems by (simp del: le_word.simps)
    ultimately show "x # xs = y # ys"
      using Cons.IH Cons.prems by simp
  qed simp
qed simp

section \<open>Error detection\<close>

lemma crc_register_inj: "foldl crc_byte a bs = foldl crc_byte b bs \<longleftrightarrow> a = b"
proof (induction bs arbitrary: a b)
  case (Cons x bs)
  have "a XOR ucast x = b XOR ucast x \<longleftrightarrow> a = b"
    using xor_eq_zero_iff [of "a XOR ucast x" "b XOR ucast x"] xor_eq_zero_iff [of a b]
    by (simp add: ac_simps)
  then have "crc_byte a x = crc_byte b x \<longleftrightarrow> a = b"
    by (simp add: crc_byte_def crc_iter_inj)
  then show ?case
    by (simp add: Cons.IH)
qed simp

lemma crc_burst_detected:
  assumes "length xs = length ys" "length ys \<le> 4"
  shows "compute_crc32 (pre @ xs @ post) = compute_crc32 (pre @ ys @ post) \<longleftrightarrow> xs = ys"
proof -
  let ?c = "foldl crc_byte 0xFFFFFFFF pre"
  have "compute_crc32 (pre @ xs @ post) = compute_crc32 (pre @ ys @ post) \<longleftrightarrow>
      foldl crc_byte ?c xs = foldl crc_byte ?c ys"
    by (simp add: compute_crc32_def crc_register_inj)
  also have "\<dots> \<longleftrightarrow> ?c XOR le_word xs = ?c XOR le_word ys"
    using assms by (simp add: crc_bytes_as_word crc_iter_inj)
  also have "\<dots> \<longleftrightarrow> le_word xs = le_word ys"
    using xor_eq_zero_iff [of "?c XOR le_word xs" "?c XOR le_word ys"] xor_eq_zero_iff [of "le_word xs" "le_word ys"]
    by (simp add: ac_simps)
  also have "\<dots> \<longleftrightarrow> xs = ys"
    using assms by (simp add: le_word_inj)
  finally show ?thesis .
qed

section \<open>Evaluation\<close>

lemma crc_bit_odd: "crc_bit c = (if odd c then drop_bit 1 c XOR 0xEDB88320 else drop_bit 1 c)"
  by (simp add: crc_bit_def and_one_eq mod_2_eq_odd)

lemma crc_byte_eight:
  "crc_byte c b = crc_bit (crc_bit (crc_bit (crc_bit (crc_bit (crc_bit (crc_bit (crc_bit (c XOR ucast b))))))))"
  by (simp add: crc_byte_def numeral_eq_Suc)

lemmas crc_eval = compute_crc32_def crc_byte_eight crc_bit_odd

text \<open>The check value every CRC-32 implementation must give for the text \<open>123456789\<close>.\<close>

lemma crc32_check_value:
  "compute_crc32 [0x31, 0x32, 0x33, 0x34, 0x35, 0x36, 0x37, 0x38, 0x39] = 0xCBF43926"
  by (simp add: crc_eval)

end
