(* ===== verification/Crc_Remainder.thy ===== *)
theory Crc_Remainder
  imports Crc32
begin

text \<open>
  What \<^verbatim>\<open>BinaryMessageParser::compute_crc32\<close> computes, in the terms of the standard: the remainder of a division of
  polynomials over the two-element field. The definitions here are a reference; the code works on a 32-bit register.
\<close>

text \<open>
  A polynomial over the two-element field is the list of its coefficients, highest power first. The generator of CRC-32 without
  its leading term, from the exponents the standard lists; addition of a polynomial aligned at the highest power; and the
  remainder by long division.
\<close>

definition generator :: "bool list" where
  "generator = map (\<lambda>e. e \<in> {26, 23, 22, 16, 12, 11, 10, 8, 7, 5, 4, 2, 1, 0 :: nat}) (rev [0..<32])"

fun poly_add :: "bool list \<Rightarrow> bool list \<Rightarrow> bool list" where
  "poly_add (x # xs) (y # ys) = (x \<noteq> y) # poly_add xs ys"
| "poly_add xs [] = xs"
| "poly_add [] ys = []"

lemma length_poly_add [simp]: "length (poly_add xs ys) = length xs"
  by (induction xs ys rule: poly_add.induct) simp_all

function poly_rem :: "bool list \<Rightarrow> bool list" where
  "poly_rem bs =
     (if length bs \<le> 32 then bs
      else if hd bs then poly_rem (poly_add (tl bs) generator)
      else poly_rem (tl bs))"
  by pat_completeness auto
termination
  by (relation "measure length") auto

declare poly_rem.simps [simp del]

text \<open>Bytes are sent lowest bit first, and the register holds the highest power in its lowest bit.\<close>

definition word_bits :: "u32 \<Rightarrow> bool list" where
  "word_bits w = map (bit w) [0..<32]"

definition data_bits :: "bytes \<Rightarrow> bool list" where
  "data_bits data = concat (map (\<lambda>b. map (bit b) [0..<8]) data)"

lemma length_bits [simp]: "length (word_bits w) = 32" "length generator = 32"
  by (simp_all add: word_bits_def generator_def)

lemma generator_bits: "generator = word_bits 0xEDB88320"
  unfolding generator_def word_bits_def by code_simp

lemma poly_add_nth:
  "k < length xs \<Longrightarrow> poly_add xs ys ! k = (if k < length ys then xs ! k \<noteq> ys ! k else xs ! k)"
  by (induction xs ys arbitrary: k rule: poly_add.induct) (auto simp: nth_Cons split: nat.split)

lemma poly_add_assoc:
  assumes "length ys \<le> length xs"
  shows "poly_add (poly_add xs ys) zs = poly_add xs (poly_add (ys @ replicate (length zs - length ys) False) zs)"
  using assms by (intro nth_equalityI) (auto simp: poly_add_nth nth_append)

lemma poly_add_zeros: "poly_add xs (ys @ replicate k False) = poly_add xs ys"
  by (rule nth_equalityI) (auto simp: poly_add_nth nth_append)

text \<open>The register takes one bit of the message in.\<close>

definition crc_in :: "u32 \<Rightarrow> bool \<Rightarrow> u32" where
  "crc_in c b = crc_bit (c XOR (if b then 1 else 0))"

lemma word_bits_step:
  "word_bits (crc_in c b) =
     (let r = tl (word_bits c) @ [False] in if hd (word_bits c) \<noteq> b then poly_add r generator else r)"
proof -
  have shift: "tl (word_bits c) @ [False] = word_bits (drop_bit 1 c)"
  proof (rule nth_equalityI)
    fix k assume "k < length (tl (word_bits c) @ [False])"
    then show "(tl (word_bits c) @ [False]) ! k = word_bits (drop_bit 1 c) ! k"
      using bit_imp_le_length [of c 32] by (cases "k = 31") (auto simp: word_bits_def nth_append nth_tl bit_drop_bit_eq)
  qed (simp add: word_bits_def)
  have add: "word_bits (x XOR y) = poly_add (word_bits x) (word_bits y)" for x y
    by (rule nth_equalityI) (auto simp: poly_add_nth word_bits_def bit_xor_iff)
  have "hd (word_bits c) \<longleftrightarrow> bit c 0"
    by (simp add: word_bits_def upt_rec)
  moreover have "drop_bit 1 (c XOR (if b then 1 else 0)) = drop_bit 1 c"
    by (rule bit_word_eqI) (simp add: bit_drop_bit_eq bit_xor_iff bit_1_iff)
  moreover have "bit (c XOR (if b then 1 else 0)) 0 \<longleftrightarrow> bit c 0 \<noteq> b"
    by (simp add: bit_xor_iff bit_1_iff)
  moreover have "poly_add xs (word_bits 0) = xs" for xs
    by (rule nth_equalityI) (auto simp: poly_add_nth word_bits_def)
  ultimately show ?thesis
    by (simp add: crc_in_def crc_bit_alt shift generator_bits add Let_def)
qed

lemma poly_rem_register:
  "poly_rem (poly_add (bs @ replicate 32 False) (word_bits c)) = word_bits (foldl crc_in c bs)"
proof (induction bs arbitrary: c)
  case Nil
  have "poly_add (replicate 32 False) (word_bits c) = word_bits c"
    by (rule nth_equalityI) (simp_all add: poly_add_nth)
  then show ?case by (simp add: poly_rem.simps)
next
  case (Cons b bs)
  let ?X = "bs @ replicate 32 False"
  obtain r0 r where r: "word_bits c = r0 # r" "length r = 31"
    using length_bits(1) [of c] by (cases "word_bits c") auto
  have "poly_add (poly_add ?X r) generator = poly_add ?X (poly_add (r @ [False]) generator)"
    using poly_add_assoc [of r ?X generator] r(2) by simp
  moreover have "poly_add ?X (r @ [False]) = poly_add ?X r"
    using poly_add_zeros [of ?X r 1] by simp
  ultimately have "poly_rem ((b \<noteq> r0) # poly_add ?X r) = poly_rem (poly_add ?X (word_bits (crc_in c b)))"
    using word_bits_step [of c b] r by (subst poly_rem.simps) (auto simp: Let_def)
  then show ?case
    using Cons.IH [of "crc_in c b"] r by simp
qed

lemma crc_in_bits:
  "n \<le> 32 \<Longrightarrow> foldl crc_in c (map (bit x) [0..<n]) = (crc_bit ^^ n) (c XOR take_bit n x)" for x :: u32
proof (induction n)
  case (Suc n)
  let ?t = "if bit x n then push_bit n 1 else 0"
  have "take_bit (Suc n) x = take_bit n x XOR ?t"
    using Suc.prems
    by (intro bit_word_eqI) (auto simp: bit_take_bit_iff bit_xor_iff bit_push_bit_iff bit_1_iff less_Suc_eq simp del: push_bit_of_1)
  moreover have "(crc_bit ^^ n) (push_bit n 1) = 1"
    using Suc.prems by (intro crc_iter_push) (auto simp: bit_1_iff)
  then have "(crc_bit ^^ n) ?t = (if bit x n then 1 else 0)"
    using crc_iter_kernel [of n 0] by simp
  moreover have "foldl crc_in c (map (bit x) [0..<Suc n]) = crc_in ((crc_bit ^^ n) (c XOR take_bit n x)) (bit x n)"
    using Suc by simp
  moreover have "(crc_bit ^^ Suc n) (c XOR (take_bit n x XOR ?t)) = crc_bit ((crc_bit ^^ n) (c XOR take_bit n x) XOR (crc_bit ^^ n) ?t)"
    by (simp only: funpow.simps comp_apply crc_iter_xor xor.assoc)
  ultimately show ?case
    by (simp only: crc_in_def [of "(crc_bit ^^ n) (c XOR take_bit n x)"])
qed simp

lemma crc_in_byte: "foldl crc_in c (map (bit b) [0..<8]) = crc_byte c b" for b :: u8
proof -
  have "map (bit b) [0..<8] = map (bit (ucast b :: u32)) [0..<8]" "take_bit 8 (ucast b :: u32) = ucast b"
    using byte_high_bit [of _ b]
    by (auto simp: bit_widened bit_take_bit_iff not_less intro!: bit_word_eqI) (meson not_less)
  then show ?thesis
    using crc_in_bits [of 8 c "ucast b"] by (simp only: crc_byte_def)
qed

lemma crc_in_data: "foldl crc_in c (data_bits data) = foldl crc_byte c data"
  by (induction data arbitrary: c) (simp_all add: data_bits_def crc_in_byte)

text \<open>C8: the checksum is the CRC-32 of the standard: with the bytes sent lowest bit first, it is the complement of the remainder of the
  message, its first 32 bits inverted and 32 zeros appended, divided by the generator polynomial.\<close>

theorem crc_is_polynomial_remainder:
  "word_bits (compute_crc32 data) =
     map Not (poly_rem (poly_add (data_bits data @ replicate 32 False) (replicate 32 True)))"
proof -
  have "replicate 32 True = word_bits 0xFFFFFFFF"
    unfolding word_bits_def by code_simp
  moreover have "word_bits (NOT w) = map Not (word_bits w)" for w
    by (simp add: word_bits_def bit_not_iff)
  ultimately show ?thesis
    by (simp add: compute_crc32_def poly_rem_register crc_in_data)
qed

end
