(* ===== verification/Message_Pool.thy ===== *)
theory Message_Pool
  imports Messages
begin

text \<open>
  \<^verbatim>\<open>include/core/pool/MessagePool.hpp\<close>: the process-wide free list of \<^verbatim>\<open>Message\<close> objects. The model keeps
  the objects in a store indexed by address, because the program shares and mutates messages
  through \<^verbatim>\<open>shared_ptr\<close>; an object is live while some \<^verbatim>\<open>shared_ptr\<close> owns it, that is, while it exists and
  is not on the free list. The deleter of the last owner calls \<open>release\<close>.

  The locale \<open>object_pool\<close> is the contract its clients rely on: an acquired object is fresh, holds
  exactly the message just constructed, and no live object is disturbed.
\<close>

section \<open>State and operations\<close>

type_synonym addr = nat

record MessagePool =
  heap :: "addr \<rightharpoonup> Message"
  pool :: "addr list"
  next_addr :: addr

definition empty_pool :: MessagePool where
  "empty_pool = \<lparr>heap = Map.empty, pool = [], next_addr = 0\<rparr>"

text \<open>
  \<open>acquire m\<close>: \<open>m\<close> is the object the constructor arguments build. An empty free list means \<^verbatim>\<open>new\<close>, at an
  address no existing object has; otherwise the object at the back is destroyed and rebuilt.
\<close>

definition acquire :: "Message \<Rightarrow> MessagePool \<Rightarrow> addr \<times> MessagePool" where
  "acquire m P =
     (if pool P = []
      then (next_addr P, P\<lparr>heap := (heap P)(next_addr P \<mapsto> m), next_addr := Suc (next_addr P)\<rparr>)
      else (last (pool P), P\<lparr>heap := (heap P)(last (pool P) \<mapsto> m), pool := butlast (pool P)\<rparr>))"

definition release :: "addr \<Rightarrow> MessagePool \<Rightarrow> MessagePool" where
  "release p P = P\<lparr>pool := pool P @ [p]\<rparr>"

definition available :: "MessagePool \<Rightarrow> nat" where
  "available P = length (pool P)"

text \<open>
  The destructor deletes the objects of the free list one after the other; deleting an object that does not exist (any more) is
  undefined.
\<close>

fun delete_all :: "addr list \<Rightarrow> (addr \<rightharpoonup> Message) \<Rightarrow> exn + (addr \<rightharpoonup> Message)" where
  "delete_all [] h = Inr h"
| "delete_all (p # ps) h = (if h p = None then Inl use_after_free else delete_all ps (h(p := None)))"

definition destroy_MessagePool :: "MessagePool \<Rightarrow> exn + MessagePool" where
  "destroy_MessagePool P = ebind (delete_all (pool P) (heap P)) (\<lambda>h. Inr (P\<lparr>heap := h, pool := []\<rparr>))"

text \<open>Writing through a pointer to a live object.\<close>

definition store :: "addr \<Rightarrow> Message \<Rightarrow> MessagePool \<Rightarrow> MessagePool" where
  "store p m P = P\<lparr>heap := (heap P)(p \<mapsto> m)\<rparr>"

definition live :: "MessagePool \<Rightarrow> addr set" where
  "live P = dom (heap P) - set (pool P)"

definition pool_inv :: "MessagePool \<Rightarrow> bool" where
  "pool_inv P \<longleftrightarrow> distinct (pool P) \<and> set (pool P) \<subseteq> dom (heap P) \<and> (\<forall>p m. heap P p = Some m \<longrightarrow> p < next_addr P)"

section \<open>The contract\<close>

locale object_pool =
  fixes acq :: "Message \<Rightarrow> 'p \<Rightarrow> addr \<times> 'p"
    and rel :: "addr \<Rightarrow> 'p \<Rightarrow> 'p"
    and obj :: "'p \<Rightarrow> addr \<Rightarrow> Message option"
    and alive :: "'p \<Rightarrow> addr set"
    and inv :: "'p \<Rightarrow> bool"
  assumes acq_fresh: "inv P \<Longrightarrow> acq m P = (p, P') \<Longrightarrow> p \<notin> alive P"
    and acq_obj: "inv P \<Longrightarrow> acq m P = (p, P') \<Longrightarrow> obj P' p = Some m"
    and acq_frame: "inv P \<Longrightarrow> acq m P = (p, P') \<Longrightarrow> q \<noteq> p \<Longrightarrow> obj P' q = obj P q"
    and acq_alive: "inv P \<Longrightarrow> acq m P = (p, P') \<Longrightarrow> alive P' = insert p (alive P)"
    and acq_inv: "inv P \<Longrightarrow> acq m P = (p, P') \<Longrightarrow> inv P'"
    and rel_alive: "inv P \<Longrightarrow> p \<in> alive P \<Longrightarrow> alive (rel p P) = alive P - {p}"
    and rel_obj: "obj (rel p P) q = obj P q"
    and rel_inv: "inv P \<Longrightarrow> p \<in> alive P \<Longrightarrow> inv (rel p P)"
begin

lemma live_object_kept:
  assumes "inv P" "acq m P = (p, P')" "q \<in> alive P"
  shows "q \<in> alive P'" "obj P' q = obj P q"
  using acq_alive acq_frame acq_fresh assms by fastforce+

text \<open>Two objects acquired one after the other never share an address, whatever was released before.\<close>

lemma acquired_distinct:
  assumes "inv P" "acq m P = (p, P1)" "acq m' P1 = (q, P2)"
  shows "p \<noteq> q" "obj P2 p = Some m" "obj P2 q = Some m'" "alive P2 = insert q (insert p (alive P))"
proof -
  have P1: "inv P1" "alive P1 = insert p (alive P)" "obj P1 p = Some m"
    using assms acq_inv acq_alive acq_obj by blast+
  then have p: "p \<in> alive P1" by simp
  show "p \<noteq> q"
    using acq_fresh [OF P1(1) assms(3)] p by blast
  show "obj P2 p = Some m"
    using live_object_kept [OF P1(1) assms(3) p] P1(3) by simp
  show "obj P2 q = Some m'"
    using acq_obj [OF P1(1) assms(3)] .
  show "alive P2 = insert q (insert p (alive P))"
    using acq_alive [OF P1(1) assms(3)] P1(2) by simp
qed

text \<open>Acquire followed by release gives back the same set of live objects, all unchanged.\<close>

lemma acquire_release:
  assumes "inv P" "acq m P = (p, P')"
  shows "alive (rel p P') = alive P" "inv (rel p P')" "q \<in> alive P \<Longrightarrow> obj (rel p P') q = obj P q"
proof -
  have "inv P'" "alive P' = insert p (alive P)" "p \<notin> alive P"
    using assms acq_inv acq_alive acq_fresh by blast+
  then show "alive (rel p P') = alive P" "inv (rel p P')"
    by (simp_all add: rel_alive rel_inv)
  show "q \<in> alive P \<Longrightarrow> obj (rel p P') q = obj P q"
    using live_object_kept [OF assms] by (simp add: rel_obj)
qed

end

section \<open>The pool keeps the contract\<close>

lemma butlast_last_facts:
  assumes "xs \<noteq> []" "distinct xs"
  shows "distinct (butlast xs)" "set (butlast xs) = set xs - {last xs}" "last xs \<in> set xs"
proof -
  obtain ys y where "xs = ys @ [y]"
    using assms(1) by (cases xs rule: rev_cases) auto
  with assms show "distinct (butlast xs)" "set (butlast xs) = set xs - {last xs}" "last xs \<in> set xs"
    by auto
qed

interpretation msg_pool: object_pool acquire release heap live pool_inv
proof
  fix P P' :: MessagePool and m p q
  { assume inv: "pool_inv P" and a: "acquire m P = (p, P')"
    show "p \<notin> live P"
      using inv a butlast_last_facts(3) [of "pool P"]
      by (fastforce simp: acquire_def live_def pool_inv_def split: if_splits)
    show "heap P' p = Some m"
      using a by (auto simp: acquire_def split: if_splits)
    show "heap P' q = heap P q" if "q \<noteq> p"
      using a that by (auto simp: acquire_def split: if_splits)
    show "live P' = insert p (live P)"
    proof (cases "pool P = []")
      case True
      with a show ?thesis by (auto simp: acquire_def live_def)
    next
      case False
      with inv a butlast_last_facts [of "pool P"] show ?thesis
        by (auto simp: acquire_def live_def pool_inv_def)
    qed
    show "pool_inv P'"
    proof (cases "pool P = []")
      case True
      with inv a show ?thesis by (auto simp: acquire_def pool_inv_def less_Suc_eq dest: domI)
    next
      case False
      with inv have "last (pool P) \<in> dom (heap P)"
        unfolding pool_inv_def using last_in_set by blast
      with False inv a butlast_last_facts [of "pool P"] show ?thesis
        by (auto simp: acquire_def pool_inv_def split: if_splits)
    qed }
  { assume "pool_inv P" and "p \<in> live P"
    then show "pool_inv (release p P)"
      by (auto simp: release_def pool_inv_def live_def) }
  show "live (release p P) = live P - {p}"
    by (auto simp: release_def live_def)
  show "heap (release p P) q = heap P q"
    by (simp add: release_def)
qed

lemma pool_inv_empty [simp]: "pool_inv empty_pool" "live empty_pool = {}"
  by (simp_all add: pool_inv_def live_def empty_pool_def)

lemma store_live:
  assumes "p \<in> live P"
  shows "live (store p m P) = live P" "pool_inv (store p m P) \<longleftrightarrow> pool_inv P"
  using assms by (auto simp: store_def live_def pool_inv_def)

text \<open>The free list is last-in first-out: the object just released is the next one handed out.\<close>

lemma release_acquire:
  "acquire m (release p P) = (p, P\<lparr>heap := (heap P)(p \<mapsto> m)\<rparr>)"
  by (simp add: acquire_def release_def)

section \<open>Runs of the pool\<close>

text \<open>
  What the program does to the pool: acquire, write through a live pointer, and release a live
  pointer (the deleter runs once, when the last owner goes).
\<close>

inductive pool_step :: "MessagePool \<Rightarrow> MessagePool \<Rightarrow> bool" where
  step_acquire: "acquire m P = (p, P') \<Longrightarrow> pool_step P P'"
| step_store: "p \<in> live P \<Longrightarrow> pool_step P (store p m P)"
| step_release: "p \<in> live P \<Longrightarrow> pool_step P (release p P)"

inductive pool_reachable :: "MessagePool \<Rightarrow> bool" where
  reach_empty: "pool_reachable empty_pool"
| reach_step: "pool_reachable P \<Longrightarrow> pool_step P P' \<Longrightarrow> pool_reachable P'"

lemma pool_step_inv: "pool_step P P' \<Longrightarrow> pool_inv P \<Longrightarrow> pool_inv P'"
  by (induction rule: pool_step.induct)
    (auto simp: store_live intro: msg_pool.acq_inv msg_pool.rel_inv)

lemma pool_reachable_inv: "pool_reachable P \<Longrightarrow> pool_inv P"
  by (induction rule: pool_reachable.induct) (auto intro: pool_step_inv)

text \<open>Destroying the pool deletes every free object exactly once and no live one.\<close>

lemma delete_all_eq: "distinct ps \<Longrightarrow> set ps \<subseteq> dom h \<Longrightarrow> delete_all ps h = Inr (h |` (- set ps))"
proof (induction ps arbitrary: h)
  case (Cons p ps)
  then have "delete_all ps (h(p := None)) = Inr ((h(p := None)) |` (- set ps))"
    by (intro Cons.IH) auto
  with Cons.prems show ?case
    by (auto simp: restrict_map_def fun_eq_iff)
qed (simp add: restrict_map_def)

lemma destroy_pool_safe:
  assumes "pool_reachable P"
  shows "\<exists>P'. destroy_MessagePool P = Inr P' \<and> heap P' = heap P |` live P"
proof -
  have "pool_inv P" by (rule pool_reachable_inv [OF assms])
  moreover have "heap P |` (- set (pool P)) = heap P |` live P"
    by (auto simp: restrict_map_def live_def fun_eq_iff dom_def)
  ultimately show ?thesis
    using delete_all_eq [of "pool P" "heap P"] by (simp add: pool_inv_def destroy_MessagePool_def)
qed

section \<open>Properties\<close>

text \<open>C28: in every reachable state of the pool, acquiring hands out an object that nobody holds, that contains
  exactly the message just constructed (nothing of its previous use), and leaves every live object untouched.\<close>

theorem pool_acquire_fresh:
  assumes "pool_reachable P" "acquire m P = (p, P')"
  shows "p \<notin> live P \<and> heap P' p = Some m \<and> live P' = insert p (live P) \<and>
    (\<forall>q. q \<in> live P \<longrightarrow> heap P' q = heap P q)"
proof -
  note inv = pool_reachable_inv [OF assms(1)]
  show ?thesis
    using msg_pool.acq_fresh [OF inv assms(2)] msg_pool.acq_obj [OF inv assms(2)]
      msg_pool.acq_alive [OF inv assms(2)] msg_pool.live_object_kept(2) [OF inv assms(2)]
    by simp
qed

lemma pool_recycled: "pool_reachable (release 0 (snd (acquire m empty_pool)))"
proof (intro reach_step [OF reach_step [OF reach_empty step_acquire] step_release])
  show "acquire m empty_pool = (0, snd (acquire m empty_pool))"
    by (simp add: acquire_def empty_pool_def)
  show "0 \<in> live (snd (acquire m empty_pool))"
    by (simp add: acquire_def empty_pool_def live_def)
qed

theorem pool_acquire_fresh_witness:
  "\<exists>P'. acquire (new_Message 2 ACK [7] 0 0 0) (release 0 (snd (acquire (new_Message 1 HELLO [] 0 0 0) empty_pool))) = (0, P') \<and>
     heap P' 0 = Some (new_Message 2 ACK [7] 0 0 0)"
proof -
  have "acquire (new_Message 2 ACK [7] 0 0 0) (release 0 (snd (acquire (new_Message 1 HELLO [] 0 0 0) empty_pool))) =
      (0, (snd (acquire (new_Message 1 HELLO [] 0 0 0) empty_pool))
        \<lparr>heap := (heap (snd (acquire (new_Message 1 HELLO [] 0 0 0) empty_pool)))(0 \<mapsto> new_Message 2 ACK [7] 0 0 0)\<rparr>)"
    by (rule release_acquire)
  with pool_acquire_fresh [OF pool_recycled this] show ?thesis by blast
qed

end
