(* ===== verification/Binary_Parser.thy ===== *)
theory Binary_Parser
  imports Crc32 Message_Pool
begin

text \<open>
  \<^verbatim>\<open>src/core/message/BinaryMessageParser.cpp\<close>: the frame layout (length, type, flags, agent, id,
  timestamp, payload, CRC), serialisation and the incremental deserialisation with its three outcomes
  (not enough data, a message, \<^verbatim>\<open>CRC mismatch\<close>). The 32-bit arithmetic of \<^verbatim>\<open>total_frame_size\<close> is kept, and
  reads outside the buffer are errors of the model.

  The locale \<open>message_parser\<close> is the contract of \<^verbatim>\<open>IMessageParser\<close> the connection relies on.
\<close>

section \<open>Operations\<close>

definition header_bytes :: "Header \<Rightarrow> bytes" where
  "header_bytes h =
     write_u64_be (write_u32_be (write_u32_be
       (write_u16_be (write_u32_be [] (payload_len h)) (type_code (msg_type h)) @ [flags h])
       (agent_id h)) (header_id h)) (timestamp h)"

definition serialize :: "Message \<Rightarrow> bytes" where
  "serialize m =
     (let buf = header_bytes (header m);
          buf = (if payload m \<noteq> [] then buf @ payload m else buf);
          computed_crc = compute_crc32 buf
      in write_u32_be buf computed_crc)"

text \<open>
  The result is the parsed message, if there is one, and the value left in \<^verbatim>\<open>bytes_consumed\<close>;
  \<open>now_ms\<close> is what the constructor of \<^verbatim>\<open>Message\<close> reads from the clock.
\<close>

definition deserialize :: "u64 \<Rightarrow> bytes \<Rightarrow> exn + (Message option \<times> nat)" where
  "deserialize now_ms data =
     (if length data < Header_size then Inr (None, 0)
      else
        ebind (read_u32_be data 0) (\<lambda>plen.
        let total_frame_size = word_of_nat Header_size + plen + 4 :: u32 in
        if length data < unat total_frame_size then Inr (None, 0)
        else
          ebind (read_u16_be data 4) (\<lambda>type_val.
          ebind (byte_at data 6) (\<lambda>fl.
          ebind (read_u32_be data 7) (\<lambda>aid.
          ebind (read_u32_be data 11) (\<lambda>hid.
          ebind (read_u64_be data 15) (\<lambda>ts.
          ebind (if plen > 0 then byte_range data Header_size (unat plen) else Inr []) (\<lambda>payload_data.
          ebind (read_u32_be data (Header_size + unat plen)) (\<lambda>msg_crc.
          ebind (byte_range data 0 (Header_size + unat plen)) (\<lambda>covered.
          if msg_crc \<noteq> compute_crc32 covered then Inl (runtime_error ''CRC mismatch'')
          else
            let out_msg = new_Message now_ms (MessageType type_val) payload_data 0 0 fl;
                out_msg = out_msg\<lparr>header := (header out_msg)\<lparr>agent_id := aid, header_id := hid, timestamp := ts\<rparr>,
                                  crc32 := msg_crc\<rparr>
            in Inr (Some out_msg, unat total_frame_size)))))))))))"

definition getHeaderSize :: nat where
  "getHeaderSize = Header_size"

text \<open>
  The same with the allocation made explicit: the message is built in an object taken from the pool,
  its header and CRC are then written through the pointer.
\<close>

definition deserialize_pooled :: "u64 \<Rightarrow> bytes \<Rightarrow> MessagePool \<Rightarrow> exn + (addr option \<times> nat \<times> MessagePool)" where
  "deserialize_pooled now_ms data P =
     ebind (deserialize now_ms data) (\<lambda>(r, consumed).
       case r of
         None \<Rightarrow> Inr (None, consumed, P)
       | Some m \<Rightarrow>
           (let (p, P1) = acquire (new_Message now_ms (msg_type (header m)) (payload m) 0 0 (flags (header m))) P
            in Inr (Some p, consumed, store p m P1)))"

section \<open>Layout\<close>

definition frame_body :: "Message \<Rightarrow> bytes" where
  "frame_body m = header_bytes (header m) @ payload m"

lemma header_bytes_app:
  "header_bytes h =
     write_u32_be [] (payload_len h) @ write_u16_be [] (type_code (msg_type h)) @ [flags h] @
     write_u32_be [] (agent_id h) @ write_u32_be [] (header_id h) @ write_u64_be [] (timestamp h)"
  unfolding header_bytes_def
  by (simp add: u64.put_append [of "write_u32_be _ _"] u64.put_append [of "_ @ _"] u32.put_append [of "write_u32_be _ _"]
      u32.put_append [of "_ @ _"] u16.put_append [of "write_u32_be _ _"])

lemma length_header_bytes [simp]: "length (header_bytes h) = 23"
  by (simp add: header_bytes_app)

lemma serialize_app: "serialize m = frame_body m @ write_u32_be [] (compute_crc32 (frame_body m))"
  by (simp add: serialize_def frame_body_def Let_def u32.put_append [of "_ @ _"] u32.put_append [of "header_bytes _"])

lemma length_frame_body [simp]: "length (frame_body m) = 23 + length (payload m)"
  by (simp add: frame_body_def)

lemma length_serialize [simp]: "length (serialize m) = Header_size + length (payload m) + 4"
  by (simp add: serialize_app)

lemma header_fields:
  "read_u32_be (header_bytes h @ zs) 0 = Inr (payload_len h)"
  "read_u16_be (header_bytes h @ zs) 4 = Inr (type_code (msg_type h))"
  "byte_at (header_bytes h @ zs) 6 = Inr (flags h)"
  "read_u32_be (header_bytes h @ zs) 7 = Inr (agent_id h)"
  "read_u32_be (header_bytes h @ zs) 11 = Inr (header_id h)"
  "read_u64_be (header_bytes h @ zs) 15 = Inr (timestamp h)"
proof -
  let ?a = "write_u32_be [] (payload_len h)" and ?b = "write_u16_be [] (type_code (msg_type h))"
    and ?d = "write_u32_be [] (agent_id h)" and ?e = "write_u32_be [] (header_id h)"
  show "read_u32_be (header_bytes h @ zs) 0 = Inr (payload_len h)"
    by (simp add: header_bytes_app codec_reads)
  show "read_u16_be (header_bytes h @ zs) 4 = Inr (type_code (msg_type h))"
    by (simp add: header_bytes_app codec_reads)
  show "byte_at (header_bytes h @ zs) 6 = Inr (flags h)"
    by (simp add: header_bytes_app byte_at_def nth_append)
  show "read_u32_be (header_bytes h @ zs) 7 = Inr (agent_id h)"
    using u32.get_at [of "?a @ ?b @ [flags h]" 7] by (simp add: header_bytes_app)
  show "read_u32_be (header_bytes h @ zs) 11 = Inr (header_id h)"
    using u32.get_at [of "?a @ ?b @ [flags h] @ ?d" 11] by (simp add: header_bytes_app)
  show "read_u64_be (header_bytes h @ zs) 15 = Inr (timestamp h)"
    using u64.get_at [of "?a @ ?b @ [flags h] @ ?d @ ?e" 15] by (simp add: header_bytes_app)
qed

section \<open>Deserialising a serialised message\<close>

text \<open>The message as the receiver gets it: the CRC field is filled in.\<close>

definition sealed :: "Message \<Rightarrow> Message" where
  "sealed m = m\<lparr>crc32 := compute_crc32 (frame_body m)\<rparr>"

lemma frame_len_no_wrap:
  fixes l :: u32
  assumes "unat l + 27 < 2 ^ 32"
  shows "unat (word_of_nat Header_size + l + 4 :: u32) = 27 + unat l"
  using assms by (simp add: unat_word_ariths)

text \<open>
  What the parser does once the whole frame is in the buffer: \<open>data\<close> starts with a header, a payload of
  the announced length and four more bytes.
\<close>

lemma deserialize_frame:
  assumes len: "unat (payload_len h) = length pl" "length pl + 27 < 2 ^ 32" and c: "length c = 4"
  shows "deserialize now (header_bytes h @ pl @ c @ rest) =
    ebind (read_u32_be c 0) (\<lambda>msg_crc.
      if msg_crc \<noteq> compute_crc32 (header_bytes h @ pl) then Inl (runtime_error ''CRC mismatch'')
      else Inr (Some \<lparr>header = h, payload = pl, crc32 = msg_crc\<rparr>, 27 + length pl))"
proof -
  let ?d = "header_bytes h @ pl @ c @ rest"
  have tot: "unat (word_of_nat Header_size + payload_len h + 4 :: u32) = 27 + length pl"
    using len by (simp only: frame_len_no_wrap)
  have plen: "word_of_nat (length pl) = payload_len h"
    by (simp flip: len(1))
  have pd: "(if payload_len h > 0 then byte_range ?d Header_size (unat (payload_len h)) else Inr []) = Inr pl"
    using len(1) by (auto simp: word_gt_0 byte_range_append)
  obtain v where v: "read_u32_be c 0 = Inr v" "write_u32_be [] v = c"
    using u32.put_get [of 0 c] c by auto
  then have "read_u32_be ?d (Header_size + unat (payload_len h)) = Inr v"
    using u32.get_at [of "header_bytes h @ pl" "Header_size + unat (payload_len h)" v rest] len(1) by simp
  moreover have "byte_range ?d 0 (Header_size + unat (payload_len h)) = Inr (header_bytes h @ pl)"
    using byte_range_append [of "[]" 0 "header_bytes h @ pl"] len(1) by simp
  ultimately show ?thesis
    using tot pd plen c v(1)
    by (simp add: deserialize_def header_fields Let_def new_Message_def)
qed

lemma deserialize_serialize:
  assumes "wf_message m"
  shows "deserialize now (serialize m @ rest) = Inr (Some (sealed m), length (serialize m))"
proof -
  have "deserialize now (header_bytes (header m) @ payload m @ write_u32_be [] (compute_crc32 (frame_body m)) @ rest) =
      Inr (Some (sealed m), 27 + length (payload m))"
    using assms
    by (subst deserialize_frame) (auto simp: wf_message_def codec_reads sealed_def frame_body_def
        u32.get_at_end [of "[]" 0, simplified])
  then show ?thesis
    by (simp add: serialize_app frame_body_def)
qed

lemma sealed_idem [simp]: "sealed (sealed m) = sealed m"
  by (simp add: sealed_def frame_body_def)

lemma wf_sealed [simp]: "wf_message (sealed m) \<longleftrightarrow> wf_message m"
  by (simp add: sealed_def wf_message_def)

lemma serialize_sealed [simp]: "serialize (sealed m) = serialize m"
  by (simp add: serialize_app frame_body_def sealed_def)

section \<open>The parser never reads past the frame it announces, unless the length wraps\<close>

lemma header_of_bytes:
  assumes "23 \<le> length data"
  obtains h where "take 23 data = header_bytes h"
proof -
  obtain a where a: "write_u32_be [] a = take 4 (drop 0 data)"
    using u32.put_get [of 0 data] assms by auto
  obtain b where b: "write_u16_be [] b = take 2 (drop 4 data)"
    using u16.put_get [of 4 data] assms by auto
  obtain d where d: "write_u32_be [] d = take 4 (drop 7 data)"
    using u32.put_get [of 7 data] assms by auto
  obtain e where e: "write_u32_be [] e = take 4 (drop 11 data)"
    using u32.put_get [of 11 data] assms by auto
  obtain f where f: "write_u64_be [] f = take 8 (drop 15 data)"
    using u64.put_get [of 15 data] assms by auto
  have "[data ! 6] = take 1 (drop 6 data)"
    using assms by (simp add: take_Suc_conv_app_nth hd_drop_conv_nth take_Suc)
  moreover have "take 23 data = take 4 data @ take 2 (drop 4 data) @ take 1 (drop 6 data) @
      take 4 (drop 7 data) @ take 4 (drop 11 data) @ take 8 (drop 15 data)"
    using take_add [of 4 19 data] take_add [of 2 17 "drop 4 data"] take_add [of 1 16 "drop 6 data"]
      take_add [of 4 12 "drop 7 data"] take_add [of 4 8 "drop 11 data"]
    by simp
  ultimately have "take 23 data = header_bytes \<lparr>msg_type = MessageType b, agent_id = d, header_id = e,
      timestamp = f, payload_len = a, flags = data ! 6\<rparr>"
    using a b d e f by (simp add: header_bytes_app)
  then show thesis by (rule that)
qed

text \<open>Every buffer of at least 23 bytes is a header and something after it.\<close>

lemma buffer_cases:
  assumes "23 \<le> length data"
  obtains h body where "data = header_bytes h @ body"
  using header_of_bytes [OF assms] append_take_drop_id by metis

lemma deserialize_short:
  assumes "unat (payload_len h) + 27 < 2 ^ 32" "length body < unat (payload_len h) + 4"
  shows "deserialize now (header_bytes h @ body) = Inr (None, 0)"
  using assms frame_len_no_wrap [OF assms(1)]
  by (simp add: deserialize_def header_fields Let_def)

lemma deserialize_complete:
  assumes "unat (payload_len h) + 27 < 2 ^ 32" "unat (payload_len h) + 4 \<le> length body"
  obtains pl v rest where "body = pl @ write_u32_be [] v @ rest" "length pl = unat (payload_len h)"
    "deserialize now (header_bytes h @ body) =
      (if v \<noteq> compute_crc32 (header_bytes h @ pl) then Inl (runtime_error ''CRC mismatch'')
       else Inr (Some \<lparr>header = h, payload = pl, crc32 = v\<rparr>, 27 + length pl))"
proof -
  define n where "n = unat (payload_len h)"
  obtain v where v: "write_u32_be [] v = take 4 (drop n body)"
    using u32.put_get [of n body] assms(2) by (auto simp: n_def)
  have body: "body = take n body @ write_u32_be [] v @ drop (n + 4) body"
    using v by (metis add.commute append_take_drop_id drop_drop)
  moreover have "length (take n body) = unat (payload_len h)"
    using assms(2) by (simp add: n_def)
  moreover have "read_u32_be (write_u32_be [] v) 0 = Inr v"
    using u32.get_front [of v "[]"] by simp
  ultimately show thesis
    using that [of "take n body" v "drop (n + 4) body"] assms(1)
      deserialize_frame [of h "take n body" "write_u32_be [] v" now "drop (n + 4) body"]
    by (simp add: n_def)
qed

lemma deserialize_outcomes:
  assumes "unat (payload_len h) + 27 < 2 ^ 32"
  shows "deserialize now (header_bytes h @ body) \<noteq> Inl out_of_bounds"
proof (cases "unat (payload_len h) + 4 \<le> length body")
  case True
  show ?thesis
    by (rule deserialize_complete [OF assms True, of now]) simp
next
  case False
  then show ?thesis
    using deserialize_short [OF assms, of body now] by simp
qed

lemma deserialize_too_short: "length data < 23 \<Longrightarrow> deserialize now data = Inr (None, 0)"
  by (simp add: deserialize_def)

text \<open>
  Called with fewer bytes than announced, the parser itself does not protect its buffer: a length field of \<open>2\<^sup>3\<^sup>2 - 27\<close> or more wraps the
  32-bit frame size around to less than 27, the size check lets it pass, and the copy of the payload leaves the buffer. The read loop
  of a connection never calls it so.
\<close>

lemma deserialize_wrapped:
  assumes wrap: "2 ^ 32 \<le> unat (payload_len h) + 27"
    and short: "length body < unat (payload_len h) + 4" and long: "4 \<le> length body"
  shows "deserialize now (header_bytes h @ body) = Inl out_of_bounds"
proof -
  let ?l = "unat (payload_len h)"
  have "?l < 2 ^ 32"
    using unsigned_less [of "payload_len h"] by simp
  then have "unat (word_of_nat Header_size + payload_len h + 4 :: u32) = ?l + 27 - 2 ^ 32"
    using wrap by (simp add: unat_word_ariths mod_if)
  moreover have "?l + 27 - 2 ^ 32 \<le> length (header_bytes h @ body)"
    using \<open>?l < 2 ^ 32\<close> long by simp
  moreover have "payload_len h > 0"
    using wrap by (auto simp: word_gt_0)
  moreover have "read_u32_be (header_bytes h @ body) (23 + ?l) = Inl out_of_bounds"
    using short by (intro u32.get_out) simp
  ultimately show ?thesis
    by (auto simp: deserialize_def header_fields Let_def byte_range_def err_simps)
qed

text \<open>A buffer that holds all announced bytes is never left, also when the 32-bit frame size wraps.\<close>

lemma deserialize_in_bounds:
  assumes l: "read_u32_be data 0 = Inr l" and long: "27 + unat l \<le> length data"
  shows "deserialize now data = Inl (runtime_error ''CRC mismatch'') \<or>
    (\<exists>m. deserialize now data = Inr (Some m, unat (word_of_nat Header_size + l + 4 :: u32)))"
proof -
  have "23 \<le> length data"
    using long by linarith
  then obtain h body where d: "data = header_bytes h @ body"
    by (rule buffer_cases)
  then have h: "payload_len h = l"
    using l header_fields(1) [of h body] by simp
  have b: "unat l + 4 \<le> length body"
    using long d by simp
  have "unat (word_of_nat Header_size + l + 4 :: u32) \<le> 27 + unat l"
    by (simp add: unat_word_ariths)
  then have "\<not> length data < unat (word_of_nat Header_size + l + 4 :: u32)"
    using long by linarith
  moreover obtain v where "read_u32_be data (Header_size + unat l) = Inr v"
    using u32.get_ok_iff [of data "Header_size + unat l"] long by auto
  ultimately show ?thesis
    using b by (simp add: d deserialize_def header_fields h Let_def byte_range_in err_simps)
qed

lemma deserialize_sound:
  assumes d: "deserialize now data = Inr (Some m, n)"
    and l: "read_u32_be data 0 = Inr l" "n = 23 + unat l + 4"
  shows "wf_message m \<and> sealed m = m \<and> serialize m = take n data \<and> n \<le> length data"
proof -
  have "23 \<le> length data"
    using d by (auto simp: deserialize_def split: if_splits)
  then obtain h body where data: "data = header_bytes h @ body"
    by (rule buffer_cases)
  with l have [simp]: "l = payload_len h"
    by (simp add: header_fields)
  have n: "n = unat (word_of_nat Header_size + l + 4 :: u32)"
    using d l(1) by (auto simp: deserialize_def Let_def err_simps split: if_splits)
  have nowrap: "unat l + 27 < 2 ^ 32"
    using n l(2) unsigned_less [of "word_of_nat Header_size + l + 4 :: u32", where ?'a = nat] by simp
  have long: "unat (payload_len h) + 4 \<le> length body"
    using deserialize_short [of h body now] nowrap d data by fastforce
  obtain pl v rest where r: "body = pl @ write_u32_be [] v @ rest" "length pl = unat (payload_len h)"
    "deserialize now (header_bytes h @ body) =
      (if v \<noteq> compute_crc32 (header_bytes h @ pl) then Inl (runtime_error ''CRC mismatch'')
       else Inr (Some \<lparr>header = h, payload = pl, crc32 = v\<rparr>, 27 + length pl))"
    using deserialize_complete [of h body now] nowrap long by auto
  with d data have m: "m = \<lparr>header = h, payload = pl, crc32 = v\<rparr>" "v = compute_crc32 (header_bytes h @ pl)"
    by (auto split: if_splits)
  have "take n data = header_bytes h @ pl @ write_u32_be [] v"
    using data r l(2) by simp
  then show ?thesis
    using m r nowrap data l(2) by (simp add: wf_message_def sealed_def frame_body_def serialize_app)
qed

section \<open>Corruption on the wire\<close>

text \<open>
  A frame in which up to four consecutive bytes behind the length field, and before the CRC, were
  changed is refused.
\<close>

lemma deserialize_tampered_body:
  assumes wf: "wf_message m"
    and f: "frame_body m = pre @ old @ post" "4 \<le> length pre"
    and new: "length new = length old" "length old \<le> 4" "new \<noteq> old"
  shows "deserialize now (pre @ new @ post @ write_u32_be [] (compute_crc32 (frame_body m)) @ rest) =
    Inl (runtime_error ''CRC mismatch'')"
proof -
  let ?data = "pre @ new @ post" and ?crc = "write_u32_be [] (compute_crc32 (frame_body m))"
  have len: "length ?data = 23 + length (payload m)"
    using f(1) new(1) length_frame_body [of m] by simp
  then obtain h body where hb: "?data = header_bytes h @ body"
    using buffer_cases [of ?data] by auto
  have body: "length body = length (payload m)"
    using len arg_cong [OF hb, of length] by simp
  have "take 4 ?data = take 4 (frame_body m)"
    using f by simp
  then have "write_u32_be [] (payload_len h) = write_u32_be [] (payload_len (header m))"
    unfolding hb by (simp add: frame_body_def header_bytes_app)
  then have ph: "payload_len h = payload_len (header m)"
    by (simp add: u32.put_inj)
  have "compute_crc32 ?data \<noteq> compute_crc32 (frame_body m)"
    using crc_burst_detected [of new old pre post] f(1) new by simp
  then have "deserialize now (header_bytes h @ body @ ?crc @ rest) = Inl (runtime_error ''CRC mismatch'')"
    using wf body ph hb u32.get_front [of "compute_crc32 (frame_body m)" "[]"]
    by (subst deserialize_frame) (auto simp: wf_message_def)
  then show ?thesis
    using hb by (metis append.assoc)
qed

text \<open>So is a frame in which the CRC field itself was changed.\<close>

lemma deserialize_tampered_crc:
  assumes wf: "wf_message m" and c: "length c = 4" "c \<noteq> write_u32_be [] (compute_crc32 (frame_body m))"
  shows "deserialize now (frame_body m @ c @ rest) = Inl (runtime_error ''CRC mismatch'')"
proof -
  obtain v where v: "read_u32_be c 0 = Inr v" "write_u32_be [] v = c"
    using u32.put_get [of 0 c] c(1) by auto
  with c(2) have "v \<noteq> compute_crc32 (frame_body m)" by auto
  with wf c(1) v show ?thesis
    unfolding frame_body_def append.assoc
    by (subst deserialize_frame) (auto simp: wf_message_def)
qed

text \<open>Both cases in terms of a position in the frame.\<close>

lemma tampered_refused:
  assumes wf: "wf_message m" and i: "4 \<le> i"
    and new: "length new \<le> 4" "new \<noteq> take (length new) (drop i (serialize m))"
    and place: "i + length new \<le> length (frame_body m) \<or>
      length (frame_body m) \<le> i \<and> i + length new \<le> length (serialize m)"
  shows "deserialize now (overwrite (serialize m) i new @ rest) = Inl (runtime_error ''CRC mismatch'')"
proof (cases "i + length new \<le> length (frame_body m)")
  case True
  let ?pre = "take i (frame_body m)" and ?old = "take (length new) (drop i (frame_body m))"
    and ?post = "drop (i + length new) (frame_body m)"
  have split: "frame_body m = ?pre @ ?old @ ?post"
    by (metis add.commute append_take_drop_id drop_drop)
  have "overwrite (serialize m) i new = ?pre @ new @ ?post @ write_u32_be [] (compute_crc32 (frame_body m))"
    using True by (simp add: overwrite_def serialize_app)
  moreover have "new \<noteq> ?old"
    using new(2) True by (simp add: serialize_app)
  ultimately show ?thesis
    using deserialize_tampered_body [OF wf split, of new] i new(1) True by simp
next
  case False
  let ?k = "i - length (frame_body m)" and ?crc = "write_u32_be [] (compute_crc32 (frame_body m))"
  have k: "length (frame_body m) \<le> i" "?k + length new \<le> 4"
    using place False by auto
  have o: "overwrite (serialize m) i new = frame_body m @ overwrite ?crc ?k new"
    using k by (simp add: overwrite_def serialize_app)
  have "overwrite ?crc ?k new \<noteq> ?crc"
  proof
    assume "overwrite ?crc ?k new = ?crc"
    then have "take (length new) (drop ?k ?crc) = new"
      using overwrite_slice [of ?k ?crc new] k(2) by simp
    with new(2) k(1) show False
      by (simp add: serialize_app)
  qed
  then show ?thesis
    using deserialize_tampered_crc [OF wf, of "overwrite ?crc ?k new" now rest] k(2) o by simp
qed

section \<open>The contract of \<^verbatim>\<open>IMessageParser\<close>\<close>

text \<open>
  What a connection needs of its parser: a frame starts with a 32-bit length prefix that tells how long
  it is, a whole frame (with anything behind it) is decoded to the message it was made from and
  consumed exactly, and what is decoded with the announced length is a frame that was sent.
\<close>

locale message_parser =
  fixes ser :: "Message \<Rightarrow> bytes"
    and des :: "bytes \<Rightarrow> exn + (Message option \<times> nat)"
    and hsize :: nat
    and wf :: "Message \<Rightarrow> bool"
    and canon :: "Message \<Rightarrow> Message"
  assumes hsize_min: "4 \<le> hsize"
    and ser_length: "wf m \<Longrightarrow> length (ser m) = hsize + unat (payload_len (header m)) + 4"
    and ser_prefix: "wf m \<Longrightarrow> read_u32_be (ser m @ rest) 0 = Inr (payload_len (header m))"
    and des_ser: "wf m \<Longrightarrow> des (ser m @ rest) = Inr (Some (canon m), length (ser m))"
    and des_sound: "des d = Inr (Some m, n) \<Longrightarrow> read_u32_be d 0 = Inr l \<Longrightarrow> n = hsize + unat l + 4 \<Longrightarrow>
      wf m \<and> canon m = m \<and> ser m = take n d \<and> n \<le> length d"
begin

lemma ser_inj:
  assumes "wf m" "wf m'" "ser m = ser m'"
  shows "canon m = canon m'"
  using des_ser [OF assms(1), of "[]"] des_ser [OF assms(2), of "[]"] assms(3) by simp

text \<open>No frame is a proper prefix of another, so a stream of frames splits in one way only.\<close>

lemma ser_prefix_free:
  assumes "wf m" "wf m'" "ser m @ xs = ser m' @ ys"
  shows "canon m = canon m' \<and> ser m = ser m' \<and> xs = ys"
proof -
  have "des (ser m @ xs) = des (ser m' @ ys)"
    using assms(3) by simp
  then have "canon m = canon m'" "length (ser m) = length (ser m')"
    using des_ser [OF assms(1), of xs] des_ser [OF assms(2), of ys] by auto
  with assms(3) show ?thesis by simp
qed

lemma stream_unique:
  "(\<And>m. m \<in> set ms \<Longrightarrow> wf m) \<Longrightarrow> (\<And>m. m \<in> set ms' \<Longrightarrow> wf m) \<Longrightarrow>
   concat (map ser ms) = concat (map ser ms') \<Longrightarrow> map canon ms = map canon ms'"
proof (induction ms arbitrary: ms')
  case Nil
  have "ms' = []"
  proof (rule ccontr)
    assume "ms' \<noteq> []"
    then obtain m where "m \<in> set ms'" by (cases ms') auto
    then have "ser m = []" "wf m" using Nil by auto
    then show False using ser_length [of m] hsize_min by simp
  qed
  then show ?case by simp
next
  case (Cons m ms)
  show ?case
  proof (cases ms')
    case Nil
    then have "ser m = []" "wf m" using Cons.prems by auto
    then show ?thesis using ser_length [of m] hsize_min by simp
  next
    case (Cons m' rest')
    then have "canon m = canon m' \<and> ser m = ser m' \<and> concat (map ser ms) = concat (map ser rest')"
      using Cons.prems by (intro ser_prefix_free) auto
    then show ?thesis
      using Cons Cons.IH [of rest'] Cons.prems by simp
  qed
qed

end

interpretation binary: message_parser serialize "deserialize now" getHeaderSize wf_message sealed
  for now
proof
  show "wf_message m \<Longrightarrow> read_u32_be (serialize m @ rest) 0 = Inr (payload_len (header m))" for m rest
    by (simp add: serialize_app frame_body_def header_fields)
  show "deserialize now d = Inr (Some m, n) \<Longrightarrow> read_u32_be d 0 = Inr l \<Longrightarrow> n = getHeaderSize + unat l + 4 \<Longrightarrow>
      wf_message m \<and> sealed m = m \<and> serialize m = take n d \<and> n \<le> length d" for d m n l
    by (rule deserialize_sound) (simp_all add: getHeaderSize_def)
qed (simp_all add: getHeaderSize_def wf_message_def deserialize_serialize)

section \<open>Allocation from the pool\<close>

text \<open>The pooled parser returns a fresh object that holds exactly the message the parser computes.\<close>

lemma deserialize_pooled_refines:
  assumes inv: "pool_inv P" and d: "deserialize_pooled now data P = Inr (Some p, n, P')"
  shows "\<exists>m. deserialize now data = Inr (Some m, n) \<and> heap P' p = Some m \<and> p \<notin> live P \<and>
    live P' = insert p (live P) \<and> pool_inv P' \<and> (\<forall>q. q \<noteq> p \<longrightarrow> heap P' q = heap P q)"
proof -
  obtain m p' P1 where m: "deserialize now data = Inr (Some m, n)"
    and a: "acquire (new_Message now (msg_type (header m)) (payload m) 0 0 (flags (header m))) P = (p', P1)"
    and r: "p' = p" "P' = store p m P1"
    using d by (auto simp: deserialize_pooled_def err_simps Let_def case_prod_beta prod_eq_iff split: option.splits)
  have p: "p \<in> live P1"
    using msg_pool.acq_alive [OF inv a] r by simp
  have "heap P' p = Some m" "\<forall>q. q \<noteq> p \<longrightarrow> heap P' q = heap P q"
    using r msg_pool.acq_frame [OF inv a] by (auto simp: store_def)
  moreover have "live P' = insert p (live P)" "pool_inv P'"
    using store_live [OF p, of m] msg_pool.acq_alive [OF inv a] msg_pool.acq_inv [OF inv a] r by simp_all
  moreover have "p \<notin> live P"
    using msg_pool.acq_fresh [OF inv a] r by simp
  ultimately show ?thesis using m by blast
qed

lemma deserialize_pooled_other:
  "deserialize now data = Inr (None, n) \<Longrightarrow> deserialize_pooled now data P = Inr (None, n, P)"
  "deserialize now data = Inl e \<Longrightarrow> deserialize_pooled now data P = Inl e"
  by (simp_all add: deserialize_pooled_def)

section \<open>Properties\<close>

text \<open>A concrete message for the witnesses: \<^verbatim>\<open>HELLO\<close> of agent 100, as in the repository's parser test.\<close>

definition sample_hello :: Message where
  "sample_hello =
     (let m = new_Message 1700000000000 HELLO [0, 0, 0, 100, 0, 0, 0, 1] 0 0 0
      in m\<lparr>header := (header m)\<lparr>agent_id := 100, header_id := 1234\<rparr>\<rparr>)"

lemma sample_hello_simps [simp]:
  "header sample_hello = \<lparr>msg_type = HELLO, agent_id = 100, header_id = 1234, timestamp = 1700000000000,
     payload_len = 8, flags = 0\<rparr>"
  "payload sample_hello = [0, 0, 0, 100, 0, 0, 0, 1]"
  by (simp_all add: sample_hello_def new_Message_def Let_def)

lemma sample_byte_13: "take (Suc 0) (drop 13 (serialize sample_hello)) = [4]"
  by (simp add: serialize_app frame_body_def header_bytes_app write_u32_be_def write_u16_be_def)

lemma wf_sample_hello [simp]: "wf_message sample_hello"
  by (simp add: wf_message_def)

text \<open>C12: a serialised frame is decoded to the message it was made from (with the CRC field filled in),
  whatever follows it in the buffer, and exactly its bytes are consumed.\<close>

theorem frame_roundtrip:
  assumes "wf_message m"
  shows "deserialize now (serialize m @ rest) = Inr (Some (sealed m), length (serialize m))"
  using assms by (rule deserialize_serialize)

theorem frame_roundtrip_witness:
  "deserialize 5 (serialize sample_hello @ [1, 2, 3]) = Inr (Some (sealed sample_hello), 35)"
  using frame_roundtrip [OF wf_sample_hello, of 5 "[1, 2, 3]"] by simp

text \<open>C21: the parser invents nothing: a message it returns with the announced frame length is well-formed and
  its serialisation is, byte for byte, the front of the buffer.\<close>

theorem frame_sound:
  assumes "deserialize now data = Inr (Some m, n)" "read_u32_be data 0 = Inr l" "n = Header_size + unat l + 4"
  shows "wf_message m \<and> serialize m = take n data \<and> n \<le> length data"
  using deserialize_sound [OF assms(1,2)] assms(3) by simp

theorem frame_sound_witness:
  "wf_message (sealed sample_hello) \<and> serialize (sealed sample_hello) = take 35 (serialize sample_hello @ [9]) \<and>
     35 \<le> length (serialize sample_hello @ [9])"
proof (rule frame_sound [where l = 8])
  show "deserialize 5 (serialize sample_hello @ [9]) = Inr (Some (sealed sample_hello), 35)"
    using deserialize_serialize [OF wf_sample_hello, of 5 "[9]"] by simp
  show "read_u32_be (serialize sample_hello @ [9]) 0 = Inr 8"
    using binary.ser_prefix [OF wf_sample_hello, of "[9]"] by simp
qed simp

text \<open>C27: a buffer whose length prefix leaves room for the 32-bit frame size has exactly three outcomes:
  too few bytes, the message, or the CRC exception. No read leaves the buffer.\<close>

theorem parser_outcomes:
  assumes l: "read_u32_be data 0 = Inr l" "unat l + 27 < 2 ^ 32" and h: "Header_size \<le> length data"
  shows "if length data < 27 + unat l then deserialize now data = Inr (None, 0)
    else deserialize now data = Inl (runtime_error ''CRC mismatch'') \<or>
      (\<exists>m. deserialize now data = Inr (Some m, 27 + unat l) \<and> unat l = length (payload m))"
proof -
  obtain hd body where d: "data = header_bytes hd @ body"
    using h by (auto intro: buffer_cases)
  with l have [simp]: "l = payload_len hd"
    by (simp add: header_fields)
  show ?thesis
  proof (cases "unat l + 4 \<le> length body")
    case True
    then obtain pl v rest where "body = pl @ write_u32_be [] v @ rest" "length pl = unat (payload_len hd)"
      "deserialize now (header_bytes hd @ body) =
        (if v \<noteq> compute_crc32 (header_bytes hd @ pl) then Inl (runtime_error ''CRC mismatch'')
         else Inr (Some \<lparr>header = hd, payload = pl, crc32 = v\<rparr>, 27 + length pl))"
      using deserialize_complete [of hd body now] l(2) by auto
    with True d show ?thesis by auto
  next
    case False
    then show ?thesis
      using deserialize_short [of hd body now] l(2) d by simp
  qed
qed

theorem parser_outcomes_witness:
  "deserialize 0 (replicate 26 0) = Inr (None, 0)"
proof -
  have "read_u32_be (replicate 26 0) 0 = Inr 0"
    by (simp add: read_u32_be_def byte_at_def eval_nat_numeral)
  from parser_outcomes [OF this, of 0] show ?thesis by simp
qed

text \<open>C7: the CRC catches every burst of up to four bytes: overwriting up to four consecutive bytes of a frame
  behind the length field with different ones, all before the CRC field or all inside it, is answered with the
  CRC exception.\<close>

theorem burst_error_refused:
  assumes wf: "wf_message m" and i: "4 \<le> i"
    and new: "length new \<le> 4" "new \<noteq> take (length new) (drop i (serialize m))"
    and place: "i + length new \<le> length (frame_body m) \<or>
      length (frame_body m) \<le> i \<and> i + length new \<le> length (serialize m)"
  shows "deserialize now (overwrite (serialize m) i new @ rest) = Inl (runtime_error ''CRC mismatch'')"
  using assms by (rule tampered_refused)

theorem burst_error_refused_witness:
  "deserialize 0 (overwrite (serialize sample_hello) 13 [0xFF] @ []) = Inl (runtime_error ''CRC mismatch'')"
proof (rule burst_error_refused [OF wf_sample_hello])
  show "[0xFF] \<noteq> take (length [0xFF :: u8]) (drop 13 (serialize sample_hello))"
    by (simp add: sample_byte_13)
qed simp_all

text \<open>A byte stream splits into frames in one way only: two sequences of well-formed messages with the same
  encoding are the same messages (up to the CRC field, which is recomputed).\<close>

lemma stream_decoding_unique:
  assumes "list_all wf_message ms" "list_all wf_message ms'"
    and "concat (map serialize ms) = concat (map serialize ms')"
  shows "map sealed ms = map sealed ms'"
  using assms by (intro binary.stream_unique) (auto simp: list_all_iff)

text \<open>Parsing into a pooled object returns a pointer that was not live, to an object holding exactly the parsed
  message, and changes no other object.\<close>

lemma pooled_parse_fresh:
  assumes "pool_reachable P" "deserialize_pooled now data P = Inr (Some p, n, P')"
  shows "\<exists>m. deserialize now data = Inr (Some m, n) \<and> heap P' p = Some m \<and> p \<notin> live P \<and>
    live P' = insert p (live P) \<and> (\<forall>q. q \<noteq> p \<longrightarrow> heap P' q = heap P q)"
  using deserialize_pooled_refines [OF pool_reachable_inv [OF assms(1)] assms(2)] by blast

end
