(* ===== verification/Tcp_Comm.thy ===== *)
theory Tcp_Comm
  imports Binary_Parser "HOL-Library.Multiset"
begin

text \<open>
  \<^verbatim>\<open>src/core/comm/TcpComm.cpp\<close>: one TCP connection with its framed read loop and its write queue. The
  socket and the event loop belong to asio; what the program sees of them are the completions of the
  operations it started, which are the arguments of the handlers below. A connection therefore
  records what it has asked for: the outstanding read and write and the closures it posted to the
  executor, which run later, one at a time.

  Connections live in a table indexed by connection number (\<open>io_world\<close>), because clients, posted
  closures and pending operations share them; the records of the agent and the controller extend
  this table. Trailing underscores of member names are dropped.
\<close>

section \<open>State\<close>

text \<open>\<^verbatim>\<open>asio::error_code\<close>: the code distinguishes success, and constructs \<^verbatim>\<open>invalid_argument\<close> itself.\<close>

datatype error_code = success | invalid_argument | operation_aborted | eof | other_error int

datatype read_op = Header_read | Body_read nat

text \<open>The closures \<^verbatim>\<open>send\<close>, \<^verbatim>\<open>disconnect\<close> and \<^verbatim>\<open>flushAndDisconnect\<close> post.\<close>

datatype task = Push_frame bytes | Close_socket | Flush_close

record TcpComm =
  is_open :: bool
  read_buffer :: bytes
  write_queue :: "bytes list"
  msg_handler_set :: bool
  err_handler_set :: bool
  tcp_shutting_down :: bool
  user_context :: "nat option"
  reading :: "read_op option"
  writing :: "bytes list"
  posted :: "task list"
  wire :: "bytes list"

text \<open>
  \<open>is_open\<close> is \<^verbatim>\<open>socket_.is_open()\<close>; \<open>user_context\<close> is the number of the session the \<^verbatim>\<open>std::any\<close> points to weakly;
  \<open>writing\<close> lists the buffers of the outstanding \<^verbatim>\<open>async_write\<close> operations in the order they were started, and nothing in the state
  keeps the code from having several; \<open>wire\<close> lists the frames whose writes have completed.
\<close>

record io_world =
  conns :: "nat \<rightharpoonup> TcpComm"

record IMessageParser =
  parser_serialize :: "Message \<Rightarrow> bytes"
  parser_deserialize :: "bytes \<Rightarrow> exn + (Message option \<times> nat)"
  parser_header_size :: nat

definition BinaryMessageParser :: "u64 \<Rightarrow> IMessageParser" where
  "BinaryMessageParser now_ms =
     \<lparr>parser_serialize = serialize, parser_deserialize = deserialize now_ms, parser_header_size = getHeaderSize\<rparr>"

text \<open>
  Handlers. A message handler may throw; whatever it did to the world before stays. An error handler
  does not throw.
\<close>

type_synonym 'w MessageHandler = "nat \<Rightarrow> Message \<Rightarrow> 'w \<Rightarrow> exn option \<times> 'w"
type_synonym 'w ErrorHandler = "nat \<Rightarrow> error_code \<Rightarrow> 'w \<Rightarrow> 'w"

section \<open>Operations on one connection\<close>

definition new_TcpComm :: "bool \<Rightarrow> TcpComm" where
  "new_TcpComm sock_open =
     \<lparr>is_open = sock_open, read_buffer = resize [] 8192, write_queue = [], msg_handler_set = False,
      err_handler_set = False, tcp_shutting_down = False, user_context = None, reading = None,
      writing = [], posted = [], wire = []\<rparr>"

definition setMessageHandler :: "TcpComm \<Rightarrow> TcpComm" where
  "setMessageHandler c = c\<lparr>msg_handler_set := True\<rparr>"

definition setErrorHandler :: "TcpComm \<Rightarrow> TcpComm" where
  "setErrorHandler c = c\<lparr>err_handler_set := True\<rparr>"

definition setContext :: "nat option \<Rightarrow> TcpComm \<Rightarrow> TcpComm" where
  "setContext ctx c = c\<lparr>user_context := ctx\<rparr>"

definition getContext :: "TcpComm \<Rightarrow> nat option" where
  "getContext c = user_context c"

definition isConnected :: "TcpComm \<Rightarrow> bool" where
  "isConnected c = is_open c"

definition readHeader :: "TcpComm \<Rightarrow> TcpComm" where
  "readHeader c = c\<lparr>reading := Some Header_read\<rparr>"

definition tcp_start :: "TcpComm \<Rightarrow> TcpComm" where
  "tcp_start c = readHeader c"

definition readBody :: "nat \<Rightarrow> TcpComm \<Rightarrow> TcpComm" where
  "readBody total_frame_size c = c\<lparr>reading := Some (Body_read total_frame_size)\<rparr>"

text \<open>\<^verbatim>\<open>send\<close> encodes the message at once, so later changes to the object do not reach the wire.\<close>

definition tcp_send :: "IMessageParser \<Rightarrow> Message \<Rightarrow> TcpComm \<Rightarrow> TcpComm" where
  "tcp_send P m c = c\<lparr>posted := posted c @ [Push_frame (parser_serialize P m)]\<rparr>"

definition tcp_disconnect :: "TcpComm \<Rightarrow> TcpComm" where
  "tcp_disconnect c = c\<lparr>posted := posted c @ [Close_socket]\<rparr>"

definition flushAndDisconnect :: "TcpComm \<Rightarrow> TcpComm" where
  "flushAndDisconnect c = c\<lparr>posted := posted c @ [Flush_close]\<rparr>"

definition writePump :: "TcpComm \<Rightarrow> TcpComm" where
  "writePump c = c\<lparr>writing := writing c @ [hd (write_queue c)]\<rparr>"

text \<open>The posted closures.\<close>

fun run_task :: "task \<Rightarrow> TcpComm \<Rightarrow> TcpComm" where
  "run_task (Push_frame buf) c =
     (let idle = (write_queue c = []);
          c = c\<lparr>write_queue := write_queue c @ [buf]\<rparr>
      in if idle then writePump c else c)"
| "run_task Close_socket c = (if is_open c then c\<lparr>is_open := False\<rparr> else c)"
| "run_task Flush_close c =
     (let c = c\<lparr>tcp_shutting_down := True\<rparr>
      in if write_queue c = [] \<and> is_open c then c\<lparr>is_open := False\<rparr> else c)"

text \<open>The completion handler of \<^verbatim>\<open>async_write\<close> without an error; \<open>buf\<close> is the frame that was written, by the write
  that was started first.\<close>

definition write_done_ok :: "bytes \<Rightarrow> TcpComm \<Rightarrow> TcpComm" where
  "write_done_ok buf c =
     (let c = c\<lparr>writing := tl (writing c), wire := wire c @ [buf]\<rparr>;
          c = (if write_queue c \<noteq> [] then c\<lparr>write_queue := tl (write_queue c)\<rparr> else c)
      in if write_queue c \<noteq> [] then writePump c
         else if tcp_shutting_down c then (if is_open c then c\<lparr>is_open := False\<rparr> else c)
         else c)"

text \<open>The length prefix, decoded in place as \<^verbatim>\<open>readHeader\<close> does.\<close>

definition be32_prefix :: "bytes \<Rightarrow> u32" where
  "be32_prefix buf =
     push_bit 24 (ucast (buf ! 0)) OR push_bit 16 (ucast (buf ! 1)) OR push_bit 8 (ucast (buf ! 2)) OR ucast (buf ! 3)"

definition header_received :: "nat \<Rightarrow> bytes \<Rightarrow> TcpComm \<Rightarrow> TcpComm" where
  "header_received header_size data c =
     (let buf = overwrite (read_buffer c) 0 data;
          total_size = header_size + unat (be32_prefix buf) + 4;
          buf = (if total_size > length buf then resize buf total_size else buf)
      in readBody total_size (c\<lparr>read_buffer := buf\<rparr>))"

section \<open>Operations that call back into the client\<close>

definition upd_conn :: "nat \<Rightarrow> (TcpComm \<Rightarrow> TcpComm) \<Rightarrow> 'a io_world_scheme \<Rightarrow> 'a io_world_scheme" where
  "upd_conn i f w = w\<lparr>conns := (conns w)(i := map_option f (conns w i))\<rparr>"

definition call_err_handler :: "'a io_world_scheme ErrorHandler \<Rightarrow> nat \<Rightarrow> error_code \<Rightarrow> 'a io_world_scheme \<Rightarrow> 'a io_world_scheme" where
  "call_err_handler eh i ec w =
     (case conns w i of
        None \<Rightarrow> w
      | Some c \<Rightarrow> if err_handler_set c then eh i ec w else w)"

text \<open>Completion of \<^verbatim>\<open>readHeader\<close>: \<open>data\<close> are the bytes the operation transferred.\<close>

definition readHeader_done ::
    "IMessageParser \<Rightarrow> 'a io_world_scheme ErrorHandler \<Rightarrow> nat \<Rightarrow> error_code \<Rightarrow> bytes \<Rightarrow> 'a io_world_scheme \<Rightarrow> 'a io_world_scheme" where
  "readHeader_done P eh i ec data w =
     (if ec = success
      then upd_conn i (header_received (parser_header_size P) data) w
      else call_err_handler eh i ec (upd_conn i (\<lambda>c. c\<lparr>reading := None\<rparr>) w))"

text \<open>
  Completion of \<^verbatim>\<open>readBody\<close>. The parser and the message handler run inside one \<^verbatim>\<open>try\<close> block, so an exception
  of either ends the read loop with \<^verbatim>\<open>invalid_argument\<close>. Undefined behaviour is no exception: it is the
  error of the whole step.
\<close>

definition caught :: "'a io_world_scheme ErrorHandler \<Rightarrow> nat \<Rightarrow> exn \<Rightarrow> 'a io_world_scheme \<Rightarrow> exn + 'a io_world_scheme" where
  "caught eh i e w = (if is_exception e then Inr (call_err_handler eh i invalid_argument w) else Inl e)"

definition dispatch_frame ::
    "IMessageParser \<Rightarrow> 'a io_world_scheme MessageHandler \<Rightarrow> 'a io_world_scheme ErrorHandler \<Rightarrow>
     nat \<Rightarrow> nat \<Rightarrow> TcpComm \<Rightarrow> 'a io_world_scheme \<Rightarrow> exn + 'a io_world_scheme" where
  "dispatch_frame P mh eh i total_frame_size c w =
     (case parser_deserialize P (read_buffer c) of
        Inl e \<Rightarrow> caught eh i e w
      | Inr (msg, consumed) \<Rightarrow>
         (case (if consumed = total_frame_size \<and> msg_handler_set c then msg else None) of
            None \<Rightarrow> Inr (upd_conn i readHeader w)
          | Some m \<Rightarrow>
             (case mh i m w of
                (Some e, w') \<Rightarrow> caught eh i e w'
              | (None, w') \<Rightarrow> Inr (upd_conn i readHeader w'))))"

definition readBody_done ::
    "IMessageParser \<Rightarrow> 'a io_world_scheme MessageHandler \<Rightarrow> 'a io_world_scheme ErrorHandler \<Rightarrow>
     nat \<Rightarrow> nat \<Rightarrow> error_code \<Rightarrow> bytes \<Rightarrow> 'a io_world_scheme \<Rightarrow> exn + 'a io_world_scheme" where
  "readBody_done P mh eh i total_frame_size ec data w =
     (if ec = success then
        (let w1 = upd_conn i (\<lambda>c. c\<lparr>read_buffer := overwrite (read_buffer c) (parser_header_size P) data, reading := None\<rparr>) w
         in case conns w1 i of
              None \<Rightarrow> Inr w1
            | Some c \<Rightarrow> dispatch_frame P mh eh i total_frame_size c w1)
      else Inr (call_err_handler eh i ec (upd_conn i (\<lambda>c. c\<lparr>reading := None\<rparr>) w)))"

text \<open>Completion of \<^verbatim>\<open>async_write\<close>. After an error the frame stays at the front of the queue.\<close>

definition write_done :: "'a io_world_scheme ErrorHandler \<Rightarrow> nat \<Rightarrow> error_code \<Rightarrow> 'a io_world_scheme \<Rightarrow> 'a io_world_scheme" where
  "write_done eh i ec w =
     (case conns w i of
        None \<Rightarrow> w
      | Some c \<Rightarrow>
          (case writing c of
             [] \<Rightarrow> w
           | buf # rest \<Rightarrow>
               if ec = success then upd_conn i (write_done_ok buf) w
               else call_err_handler eh i ec (upd_conn i (\<lambda>c. c\<lparr>writing := rest\<rparr>) w)))"

text \<open>The executor runs the \<open>k\<close>-th closure posted by connection \<open>i\<close>.\<close>

definition run_posted :: "nat \<Rightarrow> TcpComm \<Rightarrow> TcpComm" where
  "run_posted k c = run_task (posted c ! k) (c\<lparr>posted := take k (posted c) @ drop (Suc k) (posted c)\<rparr>)"

section \<open>Runs of one connection\<close>

text \<open>
  Everything that can happen to the write side: the client sends, disconnects or flushes; the executor
  runs a posted closure; an outstanding write completes or fails (a completion may be under way when the socket is closed, so
  closing does not exclude its success); the rest of the connection changes.
  The first argument says whether the executor runs closures in the order they were posted; the second
  lists the frames in the order \<^verbatim>\<open>send\<close> was called.
\<close>

inductive tcp_run :: "bool \<Rightarrow> bytes list \<Rightarrow> TcpComm \<Rightarrow> bool" for fifo :: bool where
  run_new: "tcp_run fifo [] (new_TcpComm b)"
| run_send: "tcp_run fifo log c \<Longrightarrow> tcp_run fifo (log @ [parser_serialize P m]) (tcp_send P m c)"
| run_disconnect: "tcp_run fifo log c \<Longrightarrow> tcp_run fifo log (tcp_disconnect c)"
| run_flush: "tcp_run fifo log c \<Longrightarrow> tcp_run fifo log (flushAndDisconnect c)"
| run_exec: "tcp_run fifo log c \<Longrightarrow> k < length (posted c) \<Longrightarrow> (fifo \<Longrightarrow> k = 0) \<Longrightarrow> tcp_run fifo log (run_posted k c)"
| run_written: "tcp_run fifo log c \<Longrightarrow> writing c = buf # rest \<Longrightarrow> tcp_run fifo log (write_done_ok buf c)"
| run_failed: "tcp_run fifo log c \<Longrightarrow> writing c = buf # rest \<Longrightarrow> tcp_run fifo log (c\<lparr>writing := rest\<rparr>)"
| run_other: "tcp_run fifo log c \<Longrightarrow>
    tcp_run fifo log (c\<lparr>read_buffer := b, reading := r, user_context := x, msg_handler_set := h, err_handler_set := e\<rparr>)"

fun frame_of :: "task \<Rightarrow> bytes list" where
  "frame_of (Push_frame buf) = [buf]"
| "frame_of _ = []"

definition frames :: "task list \<Rightarrow> bytes list" where
  "frames ts = concat (map frame_of ts)"

lemma frames_simps [simp]:
  "frames [] = []" "frames (t # ts) = frame_of t @ frames ts" "frames (ts @ us) = frames ts @ frames us"
  by (simp_all add: frames_def)

text \<open>At most one write is outstanding, and its frame is the front of the queue.\<close>

definition write_inv :: "TcpComm \<Rightarrow> bool" where
  "write_inv c \<longleftrightarrow> writing c = [] \<or> write_queue c \<noteq> [] \<and> writing c = [hd (write_queue c)]"

lemmas tcp_defs =
  tcp_send_def tcp_disconnect_def flushAndDisconnect_def writePump_def write_done_ok_def run_posted_def
  readHeader_def tcp_start_def readBody_def setContext_def setMessageHandler_def setErrorHandler_def Let_def

lemma run_task_inv: "write_inv c \<Longrightarrow> write_inv (run_task t c)"
  by (cases t) (auto simp: write_inv_def tcp_defs)

lemma write_done_inv: "write_inv c \<Longrightarrow> write_inv (write_done_ok b c)"
  by (auto simp: write_inv_def tcp_defs)

lemma tcp_run_inv: "tcp_run fifo log c \<Longrightarrow> write_inv c"
proof (induction rule: tcp_run.induct)
  case (run_exec log c k)
  then show ?case
    by (auto simp: run_posted_def write_inv_def [of "_\<lparr>posted := _\<rparr>"] write_inv_def [of c] intro!: run_task_inv)
next
  case (run_written log c buf rest)
  then show ?case by (simp add: write_done_inv)
qed (auto simp: write_inv_def new_TcpComm_def tcp_send_def tcp_disconnect_def flushAndDisconnect_def)

text \<open>No frame is lost or duplicated: each is on the wire, in the queue, or still in its closure.\<close>

definition accounted :: "TcpComm \<Rightarrow> bytes list" where
  "accounted c = wire c @ write_queue c @ frames (posted c)"

lemma run_task_accounted:
  "wire (run_task t c) = wire c" "write_queue (run_task t c) = write_queue c @ frame_of t"
  "posted (run_task t c) = posted c"
  by (cases t; simp add: tcp_defs)+

lemma write_done_accounted:
  assumes "write_inv c" "writing c = b # rest"
  shows "accounted (write_done_ok b c) = accounted c"
  using assms by (cases "write_queue c") (auto simp: accounted_def write_inv_def tcp_defs)

lemma tcp_run_fifo: "tcp_run fifo log c \<Longrightarrow> fifo \<Longrightarrow> accounted c = log"
proof (induction rule: tcp_run.induct)
  case (run_exec log c k)
  then obtain t ts where "posted c = t # ts" "k = 0"
    by (cases "posted c") auto
  with run_exec show ?case
    by (simp add: accounted_def run_posted_def run_task_accounted)
next
  case (run_written log c buf rest)
  then show ?case
    by (simp add: write_done_accounted tcp_run_inv)
qed (simp_all add: accounted_def new_TcpComm_def tcp_send_def tcp_disconnect_def flushAndDisconnect_def)

lemma tcp_run_mset: "tcp_run fifo log c \<Longrightarrow> mset (accounted c) = mset log"
proof (induction rule: tcp_run.induct)
  case (run_exec log c k)
  have "posted c = take k (posted c) @ posted c ! k # drop (Suc k) (posted c)"
    using run_exec by (simp add: id_take_nth_drop)
  then have "mset (frames (posted c)) =
      mset (frames (take k (posted c))) + mset (frame_of (posted c ! k)) + mset (frames (drop (Suc k) (posted c)))"
    by (metis frames_simps(2,3) mset_append add.assoc)
  with run_exec show ?case
    by (simp add: accounted_def run_posted_def run_task_accounted ac_simps)
next
  case (run_written log c buf rest)
  then show ?case
    by (simp add: write_done_accounted tcp_run_inv)
qed (simp_all add: accounted_def new_TcpComm_def tcp_send_def tcp_disconnect_def flushAndDisconnect_def)

text \<open>Running a closure never touches an outstanding write.\<close>

lemma run_task_writing:
  assumes "write_inv c" "writing c = b # bs"
  shows "writing (run_task t c) = b # bs"
  using assms by (cases t) (auto simp: write_inv_def tcp_defs)


text \<open>
  A socket that was open is closed by an executed \<^verbatim>\<open>disconnect\<close>, or gracefully, and then nothing is queued.
\<close>

lemma run_task_closes:
  assumes "is_open c" "\<not> is_open (run_task t c)"
  shows "t = Close_socket \<or> t = Flush_close \<and> write_queue (run_task t c) = []"
  using assms by (cases t) (auto simp: tcp_defs split: if_splits)

lemma write_done_closes:
  assumes "is_open c" "\<not> is_open (write_done_ok b c)"
  shows "tcp_shutting_down c \<and> write_queue (write_done_ok b c) = []"
  using assms by (auto simp: tcp_defs split: if_splits)

text \<open>
  Draining: as many completed writes as there are queued frames put all of them on the wire. A write on a closed socket does not
  complete: it is aborted, and nothing reaches the wire.
\<close>

definition pump_once :: "TcpComm \<Rightarrow> TcpComm" where
  "pump_once c =
     (case writing c of
        [] \<Rightarrow> c
      | b # rest \<Rightarrow> if is_open c then write_done_ok b c else c\<lparr>writing := rest\<rparr>)"

lemma pump_all:
  assumes "write_inv c" "writing c \<noteq> []" "is_open c"
  defines "c' \<equiv> (pump_once ^^ length (write_queue c)) c"
  shows "wire c' = wire c @ write_queue c \<and> write_queue c' = [] \<and> writing c' = [] \<and>
    tcp_shutting_down c' = tcp_shutting_down c \<and> is_open c' = (\<not> tcp_shutting_down c)"
  using assms(1-3) unfolding c'_def
proof (induction "length (write_queue c)" arbitrary: c)
  case 0
  then show ?case by (auto simp: write_inv_def)
next
  case (Suc n)
  then obtain b q where q: "write_queue c = b # q" and b: "writing c = [b]" and n: "n = length q"
    by (cases "write_queue c") (auto simp: write_inv_def)
  let ?d = "write_done_ok b c"
  have d: "pump_once c = ?d" "wire ?d = wire c @ [b]" "write_queue ?d = q"
    "tcp_shutting_down ?d = tcp_shutting_down c"
    using q b Suc.prems(3) by (auto simp: pump_once_def tcp_defs)
  show ?case
  proof (cases "q = []")
    case True
    then show ?thesis
      using q b Suc.prems(3) by (auto simp: pump_once_def tcp_defs)
  next
    case False
    then have w: "writing ?d \<noteq> []" "is_open ?d"
      using q Suc.prems(3) by (auto simp: tcp_defs)
    have "(pump_once ^^ length (write_queue c)) c = (pump_once ^^ length (write_queue ?d)) ?d"
      using q d n by (simp add: funpow_swap1)
    with Suc.hyps(1) [of ?d] write_done_inv [OF Suc.prems(1), of b] w d n q show ?thesis
      by simp
  qed
qed

text \<open>Running all posted closures in order.\<close>

definition exec_all :: "TcpComm \<Rightarrow> TcpComm" where
  "exec_all c = fold run_task (posted c) (c\<lparr>posted := []\<rparr>)"

definition drain :: "TcpComm \<Rightarrow> TcpComm" where
  "drain c = (let c = exec_all c in (pump_once ^^ length (write_queue c)) c)"

text \<open>A write is outstanding whenever something is queued: true until a write fails.\<close>

definition pumping :: "TcpComm \<Rightarrow> bool" where
  "pumping c \<longleftrightarrow> (write_queue c = [] \<longleftrightarrow> writing c = [])"

lemma run_task_pumping: "write_inv c \<Longrightarrow> pumping c \<Longrightarrow> pumping (run_task t c)"
  by (cases t) (auto simp: pumping_def write_inv_def tcp_defs)

lemma run_tasks:
  "write_inv c \<Longrightarrow> pumping c \<Longrightarrow>
   write_inv (fold run_task ts c) \<and> pumping (fold run_task ts c) \<and> wire (fold run_task ts c) = wire c \<and>
   write_queue (fold run_task ts c) = write_queue c @ frames ts"
  by (induction ts arbitrary: c) (simp_all add: run_task_inv run_task_pumping run_task_accounted)

lemma run_pushes: "set ts \<subseteq> range Push_frame \<Longrightarrow> is_open (fold run_task ts c) = is_open c"
  by (induction ts arbitrary: c) (auto simp: tcp_defs split: if_splits)

lemma drain_flushed:
  assumes "write_inv c" "pumping c" "is_open c" "set (posted c) \<subseteq> range Push_frame"
  shows "wire (drain (flushAndDisconnect c)) = accounted c \<and> write_queue (drain (flushAndDisconnect c)) = [] \<and>
    \<not> is_open (drain (flushAndDisconnect c))"
proof -
  let ?d = "fold run_task (posted c) (c\<lparr>posted := []\<rparr>)"
  have "write_inv (c\<lparr>posted := []\<rparr>)" "pumping (c\<lparr>posted := []\<rparr>)"
    using assms by (simp_all add: write_inv_def pumping_def)
  note d = run_tasks [OF this, of "posted c"]
  have e: "exec_all (flushAndDisconnect c) = run_task Flush_close ?d"
    by (simp add: exec_all_def flushAndDisconnect_def)
  let ?e = "run_task Flush_close ?d"
  have inv: "write_inv ?e" "pumping ?e"
    using d by (simp_all add: run_task_inv run_task_pumping del: run_task.simps)
  have sd: "tcp_shutting_down ?e"
    by (simp add: Let_def)
  have acc: "wire ?e @ write_queue ?e = accounted c"
    using d by (simp add: run_task_accounted accounted_def del: run_task.simps)
  show ?thesis
  proof (cases "write_queue ?e = []")
    case True
    then have "\<not> is_open ?e" by (simp add: Let_def split: if_splits)
    with True acc show ?thesis
      unfolding drain_def e Let_def by (simp del: run_task.simps)
  next
    case False
    with inv(2) have "writing ?e \<noteq> []" by (simp add: pumping_def del: run_task.simps)
    moreover have "is_open ?e"
      using False run_pushes [OF assms(4), of "c\<lparr>posted := []\<rparr>"] assms(3) by (auto simp: Let_def)
    ultimately show ?thesis
      using pump_all [OF inv(1)] acc sd unfolding drain_def e Let_def by (simp del: run_task.simps)
  qed
qed

section \<open>The read loop on a byte stream\<close>

text \<open>
  \<^verbatim>\<open>asio::async_read\<close> completes when the buffer it was given is full. \<open>feed n\<close> performs up to \<open>n\<close> such completions
  of connection \<open>i\<close> on a stream of incoming bytes and returns what is left of it.
\<close>

fun feed :: "nat \<Rightarrow> IMessageParser \<Rightarrow> 'a io_world_scheme MessageHandler \<Rightarrow> 'a io_world_scheme ErrorHandler \<Rightarrow>
    nat \<Rightarrow> bytes \<Rightarrow> 'a io_world_scheme \<Rightarrow> exn + bytes \<times> 'a io_world_scheme" where
  "feed 0 P mh eh i s w = Inr (s, w)"
| "feed (Suc n) P mh eh i s w =
     (case Option.bind (conns w i) reading of
        None \<Rightarrow> Inr (s, w)
      | Some Header_read \<Rightarrow>
          (let k = parser_header_size P
           in if length s < k then Inr (s, w)
              else feed n P mh eh i (drop k s) (readHeader_done P eh i success (take k s) w))
      | Some (Body_read tot) \<Rightarrow>
          (let k = tot - parser_header_size P
           in if length s < k then Inr (s, w)
              else ebind (readBody_done P mh eh i tot success (take k s) w) (\<lambda>w'. feed n P mh eh i (drop k s) w')))"

text \<open>Clients that only record what they are told.\<close>

record recorder = io_world +
  inbox :: "Message list"
  errors :: "error_code list"

definition record_message :: "recorder MessageHandler" where
  "record_message i m w = (None, w\<lparr>inbox := inbox w @ [m]\<rparr>)"

definition record_error :: "recorder ErrorHandler" where
  "record_error i ec w = w\<lparr>errors := errors w @ [ec]\<rparr>"

text \<open>A connection ready for the next frame.\<close>

definition receptive :: "nat \<Rightarrow> TcpComm \<Rightarrow> bool" where
  "receptive hs c \<longleftrightarrow>
     reading c = Some Header_read \<and> msg_handler_set c \<and> err_handler_set c \<and> hs \<le> length (read_buffer c) \<and> 4 \<le> hs"

lemma be32_prefix_eq:
  assumes "read_u32_be xs 0 = Inr l" "take 4 buf = take 4 xs"
  shows "be32_prefix buf = l"
proof -
  have len: "4 \<le> length xs"
    using u32.get_ok_iff [of xs 0] assms(1) by auto
  moreover have "buf ! k = xs ! k" if "k < 4" for k
    using arg_cong [OF assms(2), of "\<lambda>zs. zs ! k"] that by simp
  ultimately show ?thesis
    using assms(1) read_u32_be_in [of 0 xs] by (simp add: be32_prefix_def numeral_2_eq_2)
qed

lemma upd_conn_simps [simp]:
  "conns (upd_conn i f w) i = map_option f (conns w i)"
  "j \<noteq> i \<Longrightarrow> conns (upd_conn i f w) j = conns w j"
  "inbox (upd_conn i f u) = inbox u" "errors (upd_conn i f u) = errors u"
  by (simp_all add: upd_conn_def)

text \<open>After the header: the buffer starts with it and has room for the whole frame.\<close>

lemma header_received_facts:
  assumes c: "receptive hs c" and h: "length h = hs" and l: "read_u32_be h 0 = Inr l"
  defines "c' \<equiv> header_received hs h c"
  shows "reading c' = Some (Body_read (hs + unat l + 4))" "take hs (read_buffer c') = h"
    "hs + unat l + 4 \<le> length (read_buffer c')" "hs \<le> length (read_buffer c')"
    "msg_handler_set c' = msg_handler_set c" "err_handler_set c' = err_handler_set c"
proof -
  let ?buf = "overwrite (read_buffer c) 0 h"
  have t: "take hs ?buf = h" "length ?buf = length (read_buffer c)"
    using c h by (simp_all add: overwrite_def receptive_def)
  have "take 4 ?buf = take 4 h"
    using t(1) c by (metis receptive_def min_absorb1 take_take)
  then have l': "be32_prefix ?buf = l"
    using l by (rule be32_prefix_eq [rotated])
  show "reading c' = Some (Body_read (hs + unat l + 4))"
    by (simp add: c'_def header_received_def Let_def l' readBody_def)
  show "take hs (read_buffer c') = h"
    using t c by (simp add: c'_def header_received_def Let_def l' readBody_def take_resize receptive_def)
  show "hs + unat l + 4 \<le> length (read_buffer c')" "hs \<le> length (read_buffer c')"
    using t c by (simp_all add: c'_def header_received_def Let_def l' readBody_def receptive_def)
  show "msg_handler_set c' = msg_handler_set c" "err_handler_set c' = err_handler_set c"
    by (simp_all add: c'_def header_received_def Let_def readBody_def)
qed

lemma feed_header:
  assumes "conns w i = Some c" "reading c = Some Header_read" "parser_header_size P \<le> length s"
  shows "feed (Suc n) P mh eh i s w = feed n P mh eh i (drop (parser_header_size P) s)
    (readHeader_done P eh i success (take (parser_header_size P) s) w)"
  using assms by (simp add: Let_def)

lemma feed_body:
  assumes "conns w i = Some c" "reading c = Some (Body_read tot)" "tot - parser_header_size P \<le> length s"
  shows "feed (Suc n) P mh eh i s w =
    ebind (readBody_done P mh eh i tot success (take (tot - parser_header_size P) s) w)
      (\<lambda>w'. feed n P mh eh i (drop (tot - parser_header_size P) s) w')"
  using assms by (simp add: Let_def)

lemma feed_stopped: "conns w i = Some c \<Longrightarrow> reading c = None \<Longrightarrow> feed n P mh eh i s w = Inr (s, w)"
  by (cases n) simp_all

text \<open>
  One frame's worth of bytes: header and body arrive, and the parser is run on a buffer that starts with
  exactly these bytes.
\<close>

lemma feed_frame:
  fixes w :: "'a io_world_scheme" and P :: IMessageParser
  defines "hs \<equiv> parser_header_size P"
  assumes c: "conns w i = Some c" "receptive hs c"
    and f: "read_u32_be f 0 = Inr l" "length f = hs + unat l + 4"
  shows "\<exists>c1 rest. read_buffer c1 = f @ rest \<and> msg_handler_set c1 \<and> err_handler_set c1 \<and> reading c1 = None \<and>
    c1 = c\<lparr>read_buffer := read_buffer c1, reading := None\<rparr> \<and>
    (\<forall>n mh eh s. feed (Suc (Suc n)) P mh eh i (f @ s) w =
       ebind (dispatch_frame P mh eh i (length f) c1 (w\<lparr>conns := (conns w)(i \<mapsto> c1)\<rparr>)) (\<lambda>w'. feed n P mh eh i s w'))"
proof -
  define c0 where "c0 = header_received hs (take hs f) c"
  have hf: "length (take hs f) = hs" "read_u32_be (take hs f) 0 = Inr l"
    using f c(2) by (simp_all add: read_u32_be_in receptive_def)
  note facts = header_received_facts [OF c(2) hf, folded c0_def]
  define c1 where "c1 = c0\<lparr>read_buffer := overwrite (read_buffer c0) hs (drop hs f), reading := None\<rparr>"
  have "take hs f @ drop hs f @ zs = f @ zs" for zs
    by (metis append.assoc append_take_drop_id)
  then have B: "read_buffer c1 = f @ drop (length f) (read_buffer c0)"
    using facts(2) f(2) by (simp add: c1_def overwrite_def add.assoc)
  have "feed (Suc (Suc n)) P mh eh i (f @ s) w =
      ebind (dispatch_frame P mh eh i (length f) c1 (w\<lparr>conns := (conns w)(i \<mapsto> c1)\<rparr>)) (\<lambda>w'. feed n P mh eh i s w')"
    for n mh eh s
  proof -
    let ?w0 = "upd_conn i (header_received hs (take hs f)) w"
    have w0: "conns ?w0 i = Some c0" "reading c0 = Some (Body_read (length f))"
      using c(1) facts(1) f(2) by (simp_all add: c0_def)
    have "readBody_done P mh eh i (length f) success (drop hs f) ?w0 =
        dispatch_frame P mh eh i (length f) c1 (w\<lparr>conns := (conns w)(i \<mapsto> c1)\<rparr>)"
      using c(1) by (simp add: readBody_done_def upd_conn_def c1_def c0_def hs_def)
    moreover have "feed (Suc (Suc n)) P mh eh i (f @ s) w = feed (Suc n) P mh eh i (drop hs f @ s) ?w0"
      using feed_header [of w i c P "f @ s" "Suc n" mh eh] c f(2)
      by (simp add: receptive_def readHeader_done_def del: feed.simps flip: hs_def)
    moreover have "feed (Suc n) P mh eh i (drop hs f @ s) ?w0 =
        ebind (readBody_done P mh eh i (length f) success (drop hs f) ?w0) (\<lambda>w'. feed n P mh eh i s w')"
      using feed_body [OF w0, of P "drop hs f @ s" n mh eh] f(2) by (simp del: feed.simps flip: hs_def)
    ultimately show ?thesis by simp
  qed
  moreover have "msg_handler_set c1" "err_handler_set c1" "reading c1 = None"
    using facts(5,6) c(2) by (simp_all add: c1_def receptive_def)
  moreover have "c1 = c\<lparr>read_buffer := read_buffer c1, reading := None\<rparr>"
    by (simp add: c1_def c0_def header_received_def readBody_def Let_def)
  ultimately show ?thesis
    using B by blast
qed

subsection \<open>Streams of frames\<close>

definition parser_api :: "(Message \<Rightarrow> bytes) \<Rightarrow> (bytes \<Rightarrow> exn + (Message option \<times> nat)) \<Rightarrow> nat \<Rightarrow> IMessageParser" where
  "parser_api ser des hs = \<lparr>parser_serialize = ser, parser_deserialize = des, parser_header_size = hs\<rparr>"

lemma parser_api_simps [simp]:
  "parser_serialize (parser_api ser des hs) = ser" "parser_deserialize (parser_api ser des hs) = des"
  "parser_header_size (parser_api ser des hs) = hs"
  by (simp_all add: parser_api_def)

declare feed.simps(2) [simp del]

context message_parser
begin

lemma receive_one:
  assumes c: "conns w i = Some c" "receptive hsize c" and m: "wf m"
  shows "\<exists>w' c'. feed (Suc (Suc n)) (parser_api ser des hsize) record_message eh i (ser m @ s) w =
       feed n (parser_api ser des hsize) record_message eh i s w' \<and>
    conns w' i = Some c' \<and> receptive hsize c' \<and> inbox w' = inbox w @ [canon m] \<and> errors w' = errors w"
proof -
  let ?P = "parser_api ser des hsize"
  obtain c1 rest where c1: "read_buffer c1 = ser m @ rest" "msg_handler_set c1" "err_handler_set c1"
    and feed: "\<And>n mh eh s. feed (Suc (Suc n)) ?P mh eh i (ser m @ s) w =
       ebind (dispatch_frame ?P mh eh i (length (ser m)) c1 (w\<lparr>conns := (conns w)(i \<mapsto> c1)\<rparr>)) (\<lambda>w'. feed n ?P mh eh i s w')"
    using feed_frame [of w i c ?P "ser m" "payload_len (header m)"] c ser_length [OF m] ser_prefix [OF m, of "[]"]
    by auto
  let ?w = "upd_conn i readHeader (w\<lparr>conns := (conns w)(i \<mapsto> c1), inbox := inbox w @ [canon m]\<rparr>)"
  have "dispatch_frame ?P record_message eh i (length (ser m)) c1 (w\<lparr>conns := (conns w)(i \<mapsto> c1)\<rparr>) = Inr ?w"
    using des_ser [OF m, of rest] c1 by (simp add: dispatch_frame_def record_message_def)
  then have "feed (Suc (Suc n)) ?P record_message eh i (ser m @ s) w = feed n ?P record_message eh i s ?w"
    by (simp add: feed)
  moreover have "receptive hsize (readHeader c1)"
    using c1 c(2) ser_length [OF m] by (simp add: receptive_def readHeader_def)
  ultimately show ?thesis
    by (intro exI [of _ ?w] exI [of _ "readHeader c1"]) simp
qed

lemma receive_stream:
  "(\<And>m. m \<in> set ms \<Longrightarrow> wf m) \<Longrightarrow> conns w i = Some c \<Longrightarrow> receptive hsize c \<Longrightarrow>
   \<exists>w' c'. feed (2 * length ms) (parser_api ser des hsize) record_message eh i (concat (map ser ms) @ rest) w = Inr (rest, w') \<and>
     conns w' i = Some c' \<and> receptive hsize c' \<and> inbox w' = inbox w @ map canon ms \<and> errors w' = errors w"
proof (induction ms arbitrary: w c)
  case (Cons m ms)
  obtain w1 c1 where w1: "feed (Suc (Suc (2 * length ms))) (parser_api ser des hsize) record_message eh i
        (ser m @ concat (map ser ms) @ rest) w =
      feed (2 * length ms) (parser_api ser des hsize) record_message eh i (concat (map ser ms) @ rest) w1"
    "conns w1 i = Some c1" "receptive hsize c1" "inbox w1 = inbox w @ [canon m]" "errors w1 = errors w"
    using receive_one [of w i c m] Cons.prems by fastforce
  with Cons.IH [of w1 c1] Cons.prems show ?case by simp
qed simp

end

section \<open>The contract of a client\<close>

text \<open>
  A client of connections is its two handlers and an invariant that they keep and that depends on a connection only
  through its context and an upper bound of the frames it has sent or will send. A connection makes up no frames of its
  own, so everything it does keeps the invariant.
\<close>

definition outgoing :: "TcpComm \<Rightarrow> bytes set" where
  "outgoing c = set (wire c) \<union> set (write_queue c) \<union> set (writing c) \<union> set (frames (posted c))"

lemma outgoing_task: "outgoing (run_task t c) \<subseteq> outgoing c \<union> set (frame_of t)"
proof (cases t)
  case (Push_frame buf)
  then show ?thesis
    by (cases "write_queue c") (auto simp: outgoing_def tcp_defs Let_def)
qed (auto simp: outgoing_def tcp_defs Let_def)

lemma outgoing_run_posted:
  assumes "k < length (posted c)"
  shows "outgoing (run_posted k c) \<subseteq> outgoing c"
proof -
  have "set (frames (take k (posted c) @ drop (Suc k) (posted c))) \<union> set (frame_of (posted c ! k)) = set (frames (posted c))"
    by (subst (4) id_take_nth_drop [OF assms]) auto
  then show ?thesis
    using outgoing_task [of "posted c ! k" "c\<lparr>posted := take k (posted c) @ drop (Suc k) (posted c)\<rparr>"]
    by (auto simp: run_posted_def outgoing_def)
qed

lemma outgoing_write_done:
  assumes "writing c = buf # rest"
  shows "outgoing (write_done_ok buf c) \<subseteq> outgoing c"
proof (cases "write_queue c")
  case (Cons x xs)
  with assms show ?thesis
    by (cases xs) (auto simp: outgoing_def tcp_defs Let_def)
qed (use assms in \<open>auto simp: outgoing_def tcp_defs Let_def\<close>)

locale tcp_client =
  fixes mh :: "'a io_world_scheme MessageHandler"
    and eh :: "'a io_world_scheme ErrorHandler"
    and inv :: "'a io_world_scheme \<Rightarrow> bool"
  assumes mh_inv: "inv w \<Longrightarrow> conns w i \<noteq> None \<Longrightarrow> mh i m w = (r, w') \<Longrightarrow> inv w'"
    and eh_inv: "inv w \<Longrightarrow> conns w i \<noteq> None \<Longrightarrow> inv (eh i ec w)"
    and conn_inv: "inv w \<Longrightarrow>
      (\<And>c. conns w i = Some c \<Longrightarrow> user_context (f c) = user_context c \<and> outgoing (f c) \<subseteq> outgoing c \<and> prefix (wire c) (wire (f c))) \<Longrightarrow>
      inv (upd_conn i f w)"
begin

lemma call_err_inv: "inv w \<Longrightarrow> inv (call_err_handler eh i ec w)"
  by (auto simp: call_err_handler_def intro: eh_inv split: option.split)

lemma caught_inv: "inv w \<Longrightarrow> caught eh i e w = Inr w' \<Longrightarrow> inv w'"
  by (auto simp: caught_def call_err_inv split: if_splits)

lemma readHeader_done_inv: "inv w \<Longrightarrow> inv (readHeader_done P eh i ec data w)"
  by (auto simp: readHeader_done_def header_received_def readBody_def outgoing_def Let_def intro!: conn_inv call_err_inv)

lemma dispatch_inv:
  assumes "inv w" "conns w i \<noteq> None" "dispatch_frame P mh eh i tot c w = Inr w'"
  shows "inv w'"
proof -
  have rh: "inv u \<Longrightarrow> inv (upd_conn i readHeader u)" for u
    by (rule conn_inv) (simp_all add: readHeader_def outgoing_def)
  show ?thesis
    using assms(3)
    by (auto simp: dispatch_frame_def split: sum.splits prod.splits option.splits
        intro: rh assms(1) caught_inv [OF assms(1)] mh_inv [OF assms(1,2)] caught_inv [OF mh_inv [OF assms(1,2)]])
qed

lemma readBody_done_inv:
  assumes "inv w" "readBody_done P mh eh i tot ec data w = Inr w'"
  shows "inv w'"
proof -
  let ?f = "\<lambda>c. c\<lparr>read_buffer := overwrite (read_buffer c) (parser_header_size P) data, reading := None\<rparr>"
  have "inv (upd_conn i ?f w)" "inv (upd_conn i (\<lambda>c. c\<lparr>reading := None\<rparr>) w)"
    using assms(1) by (auto simp: outgoing_def intro!: conn_inv)
  then show ?thesis
    using assms(2) dispatch_inv [of "upd_conn i ?f w" i P tot "?f _" w']
    by (auto simp: readBody_done_def Let_def intro: call_err_inv split: if_splits option.splits)
qed

lemma write_completion_inv: "inv w \<Longrightarrow> inv (write_done eh i ec w)"
proof -
  assume w: "inv w"
  have "inv (upd_conn i (write_done_ok b) w)" if "conns w i = Some c" "writing c = b # rest" for b rest c
    using that outgoing_write_done [of c b] by (intro conn_inv [OF w]) (simp add: write_done_ok_def writePump_def Let_def)
  moreover have "inv (upd_conn i (\<lambda>c. c\<lparr>writing := rest\<rparr>) w)" if "conns w i = Some c" "writing c = b # rest" for b rest c
    using that by (intro conn_inv [OF w]) (auto simp: outgoing_def)
  ultimately show ?thesis
    using w by (auto simp: write_done_def call_err_inv split: option.split list.split)
qed

lemma run_posted_inv:
  assumes "inv w" "conns w i = Some c" "k < length (posted c)"
  shows "inv (upd_conn i (run_posted k) w)"
proof (rule conn_inv [OF assms(1)])
  have "user_context (run_task t c) = user_context c" "wire (run_task t c) = wire c" for t c
    by (cases t; simp add: tcp_defs)+
  then show "user_context (run_posted k d) = user_context d \<and> outgoing (run_posted k d) \<subseteq> outgoing d \<and> prefix (wire d) (wire (run_posted k d))"
    if "conns w i = Some d" for d
    using that assms(2,3) outgoing_run_posted [of k d] by (simp add: run_posted_def)
qed

end

section \<open>Properties\<close>

lemma BinaryMessageParser_api: "BinaryMessageParser now = parser_api serialize (deserialize now) getHeaderSize"
  by (simp add: BinaryMessageParser_def parser_api_def)

lemma BinaryMessageParser_simps [simp]:
  "parser_serialize (BinaryMessageParser now) = serialize" "parser_deserialize (BinaryMessageParser now) = deserialize now"
  "parser_header_size (BinaryMessageParser now) = getHeaderSize"
  by (simp_all add: BinaryMessageParser_def)

definition ready_conn :: TcpComm where
  "ready_conn = tcp_start (setErrorHandler (setMessageHandler (new_TcpComm True)))"

lemma receptive_ready_conn [simp]: "receptive getHeaderSize ready_conn"
  by (simp add: receptive_def ready_conn_def tcp_defs new_TcpComm_def getHeaderSize_def)

text \<open>C13: the read loop delivers a stream of frames to the message handler as exactly the messages that were sent,
  in order, reports no error, and is then waiting for the next header. Twice as many completed reads as there
  are messages are enough.\<close>

theorem stream_delivered_in_order:
  assumes "list_all wf_message ms" "conns w i = Some c" "receptive getHeaderSize c"
  shows "\<exists>w' c'. feed (2 * length ms) (BinaryMessageParser now) record_message eh i (concat (map serialize ms) @ rest) w = Inr (rest, w') \<and>
    conns w' i = Some c' \<and> reading c' = Some Header_read \<and> inbox w' = inbox w @ map sealed ms \<and> errors w' = errors w"
  using binary.receive_stream [of ms w i c now eh rest] assms
  by (auto simp: BinaryMessageParser_api list_all_iff receptive_def)

theorem stream_delivered_in_order_witness:
  "\<exists>w'. feed 4 (BinaryMessageParser 0) record_message record_error 0 (serialize sample_hello @ serialize sample_hello)
      \<lparr>conns = [0 \<mapsto> ready_conn], inbox = [], errors = []\<rparr> = Inr ([], w') \<and>
     inbox w' = [sealed sample_hello, sealed sample_hello]"
  using stream_delivered_in_order [of "[sample_hello, sample_hello]" "\<lparr>conns = [0 \<mapsto> ready_conn], inbox = [], errors = []\<rparr>" 0
      ready_conn 0 record_error "[]"]
  by auto

text \<open>A frame damaged by a burst of up to four bytes behind the length field never reaches the message handler:
  the error handler is called once with \<^verbatim>\<open>invalid_argument\<close> and no further read is started.\<close>

lemma damaged_frame_not_delivered:
  assumes wf: "wf_message m" and i: "4 \<le> k"
    and new: "length new \<le> 4" "new \<noteq> take (length new) (drop k (serialize m))"
    and place: "k + length new \<le> length (frame_body m) \<or>
      length (frame_body m) \<le> k \<and> k + length new \<le> length (serialize m)"
    and c: "conns w i = Some c" "receptive getHeaderSize c"
  shows "\<exists>w' c'. feed (Suc (Suc n)) (BinaryMessageParser now) record_message record_error i (overwrite (serialize m) k new @ s) w = Inr (s, w') \<and>
    conns w' i = Some c' \<and> reading c' = None \<and> inbox w' = inbox w \<and> errors w' = errors w @ [invalid_argument]"
proof -
  let ?P = "BinaryMessageParser now" and ?f = "overwrite (serialize m) k new"
  have len: "k + length new \<le> length (serialize m)" "length ?f = length (serialize m)"
    using place by (auto simp: overwrite_def serialize_app)
  have "take 4 ?f = take 4 (serialize m)"
    using i len(1) by (intro take_overwrite_front) simp_all
  then have pre: "read_u32_be ?f 0 = Inr (payload_len (header m))"
    using binary.ser_prefix [OF wf, of "[]"] len(2) by (subst read_u32_be_take4 [of _ "serialize m"]) simp_all
  have flen: "length ?f = getHeaderSize + unat (payload_len (header m)) + 4"
    using len(2) binary.ser_length [OF wf] by (rule trans)
  obtain c1 rest where c1: "read_buffer c1 = ?f @ rest" "err_handler_set c1" "reading c1 = None"
    and feed: "\<And>n mh eh s. feed (Suc (Suc n)) ?P mh eh i (?f @ s) w =
       ebind (dispatch_frame ?P mh eh i (length ?f) c1 (w\<lparr>conns := (conns w)(i \<mapsto> c1)\<rparr>)) (\<lambda>w'. feed n ?P mh eh i s w')"
    using feed_frame [of w i c ?P ?f "payload_len (header m)"] c pre flen by auto
  let ?w = "w\<lparr>conns := (conns w)(i \<mapsto> c1), errors := errors w @ [invalid_argument]\<rparr>"
  have "deserialize now (?f @ rest) = Inl (runtime_error ''CRC mismatch'')"
    using wf i new place by (rule tampered_refused)
  then have "dispatch_frame ?P record_message record_error i (length ?f) c1 (w\<lparr>conns := (conns w)(i \<mapsto> c1)\<rparr>) = Inr ?w"
    using c1 by (simp add: dispatch_frame_def caught_def call_err_handler_def record_error_def)
  then have "feed (Suc (Suc n)) ?P record_message record_error i (?f @ s) w = Inr (s, ?w)"
    using c1(3) by (simp add: feed feed_stopped)
  then show ?thesis
    using c1(3) by simp
qed

text \<open>C14: no frame is lost, duplicated or invented: in every run of a connection, under every order in which the
  executor runs the posted closures, the frames written, queued and still in closures are those that were sent.
  When closures run in the order they were posted, they reach the wire in the order of the calls of \<^verbatim>\<open>send\<close>. At
  most one write is outstanding, and its buffer is the front of the queue.\<close>

theorem no_frame_lost:
  assumes "tcp_run fifo log c"
  shows "mset (wire c @ write_queue c @ frames (posted c)) = mset log \<and>
    (fifo \<longrightarrow> wire c @ write_queue c @ frames (posted c) = log) \<and>
    (writing c \<noteq> [] \<longrightarrow> write_queue c \<noteq> [] \<and> writing c = [hd (write_queue c)])"
  using tcp_run_fifo [OF assms] tcp_run_mset [OF assms] tcp_run_inv [OF assms]
  by (auto simp: accounted_def write_inv_def)

text \<open>Two frames, the second one sent while the first is being written.\<close>

definition sample_writer :: TcpComm where
  "sample_writer =
     (let P = BinaryMessageParser 0; f = serialize sample_hello;
          c = run_posted 0 (tcp_send P sample_hello (new_TcpComm True));
          c = run_posted 0 (tcp_send P sample_hello c)
      in write_done_ok f (write_done_ok f c))"

lemma sample_writer_run:
  "tcp_run True [serialize sample_hello, serialize sample_hello] sample_writer" "write_queue sample_writer = []" "posted sample_writer = []"
proof -
  let ?P = "BinaryMessageParser 0" and ?f = "serialize sample_hello"
  let ?c1 = "run_posted 0 (tcp_send ?P sample_hello (new_TcpComm True))"
  let ?c2 = "run_posted 0 (tcp_send ?P sample_hello ?c1)"
  have "tcp_run True [?f] (tcp_send ?P sample_hello (new_TcpComm True))"
    using run_send [OF run_new, of True ?P sample_hello True] by simp
  then have "tcp_run True [?f] ?c1"
    by (rule run_exec) (simp_all add: tcp_defs)
  then have "tcp_run True [?f, ?f] (tcp_send ?P sample_hello ?c1)"
    using run_send [of True "[?f]" ?c1 ?P sample_hello] by simp
  then have r: "tcp_run True [?f, ?f] ?c2"
    by (rule run_exec) (simp_all add: tcp_defs)
  have c2: "writing ?c2 = [?f]" "writing (write_done_ok ?f ?c2) = [?f]"
    by (simp_all add: tcp_defs new_TcpComm_def)
  show "tcp_run True [?f, ?f] sample_writer"
    unfolding sample_writer_def Let_def by (intro run_written [OF run_written [OF r c2(1)] c2(2)])
  show "write_queue sample_writer = []" "posted sample_writer = []"
    by (simp_all add: sample_writer_def tcp_defs new_TcpComm_def)
qed

theorem no_frame_lost_witness: "wire sample_writer = [serialize sample_hello, serialize sample_hello]"
  using no_frame_lost [OF sample_writer_run(1)] sample_writer_run(2,3) by simp

text \<open>C20: a graceful shutdown completes: on an open connection where no write has failed and no other close is under way, running the
  posted closures in order and completing as many writes as are then queued puts every frame ever sent on the wire, in
  order, and closes the socket. A write on a closed socket puts nothing on the wire, so the close comes last.\<close>

theorem flush_drains_then_closes:
  assumes "tcp_run True log c" "write_queue c = [] \<longleftrightarrow> writing c = []" "is_open c" "set (posted c) \<subseteq> range Push_frame"
  shows "wire (drain (flushAndDisconnect c)) = log \<and> write_queue (drain (flushAndDisconnect c)) = [] \<and>
    \<not> is_open (drain (flushAndDisconnect c))"
  using drain_flushed [OF tcp_run_inv [OF assms(1)]] assms tcp_run_fifo [OF assms(1)] by (simp add: pumping_def)

text \<open>Here one frame is being written, one is queued and one is still in its closure.\<close>

theorem flush_drains_then_closes_witness:
  "\<exists>c. length (write_queue c) = 2 \<and> length (posted c) = 1 \<and> is_open c \<and>
     wire (drain (flushAndDisconnect c)) = replicate 3 (serialize sample_hello) \<and> \<not> is_open (drain (flushAndDisconnect c))"
proof -
  let ?P = "BinaryMessageParser 0" and ?f = "serialize sample_hello"
  let ?c = "tcp_send ?P sample_hello (run_posted 0 (run_posted 0 (tcp_send ?P sample_hello (tcp_send ?P sample_hello (new_TcpComm True)))))"
  have "tcp_run True ([?f] @ [?f]) (tcp_send ?P sample_hello (tcp_send ?P sample_hello (new_TcpComm True)))"
    using run_send [OF run_send [OF run_new], of True ?P sample_hello ?P sample_hello True] by simp
  then have "tcp_run True ([?f] @ [?f]) (run_posted 0 (run_posted 0 (tcp_send ?P sample_hello (tcp_send ?P sample_hello (new_TcpComm True)))))"
    by (intro run_exec) (simp_all add: tcp_defs new_TcpComm_def)
  then have r: "tcp_run True (([?f] @ [?f]) @ [?f]) ?c"
    using run_send [of True "[?f] @ [?f]" _ ?P sample_hello] by simp
  have c: "write_queue ?c = [?f, ?f]" "writing ?c = [?f]" "posted ?c = [Push_frame ?f]" "is_open ?c"
    by (simp_all add: tcp_defs new_TcpComm_def)
  have p: "set (posted ?c) \<subseteq> range Push_frame"
    unfolding c(3) by simp
  have "wire (drain (flushAndDisconnect ?c)) = replicate 3 ?f \<and> \<not> is_open (drain (flushAndDisconnect ?c))"
    using flush_drains_then_closes [OF r _ c(4) p] c(1,2) by (simp add: numeral_3_eq_3)
  with c show ?thesis by (intro exI [of _ ?c]) simp
qed

text \<open>The body of a frame always fits the read buffer it is read into: after a header the buffer has room for the
  announced frame, whose size is computed without wrap-around. Nothing else bounds it: the largest length prefix
  makes the buffer grow beyond four gigabytes.\<close>

lemma read_buffer_bounds:
  assumes "receptive getHeaderSize c" "length h = getHeaderSize" "read_u32_be h 0 = Inr l"
  shows "reading (header_received getHeaderSize h c) = Some (Body_read (27 + unat l)) \<and>
    length (read_buffer (header_received getHeaderSize h c)) = max (length (read_buffer c)) (27 + unat l) \<and>
    27 + unat l < 2 ^ 32 + 27"
proof -
  let ?buf = "overwrite (read_buffer c) 0 h"
  have t: "length ?buf = length (read_buffer c)"
    using assms by (simp add: overwrite_def receptive_def)
  have "take 4 ?buf = take 4 h"
    using assms by (simp add: overwrite_def receptive_def getHeaderSize_def)
  then have "be32_prefix ?buf = l"
    using assms(3) by (rule be32_prefix_eq [rotated])
  moreover have "unat l < 2 ^ 32"
    using unsigned_less [of l, where ?'a = nat] by simp
  ultimately show ?thesis
    using t by (simp add: header_received_def Let_def readBody_def getHeaderSize_def max_def)
qed

end
