(* ===== verification/Payloads.thy ===== *)
theory Payloads
  imports ByteSerializer
begin

text \<open>
  The payload structs of \<^verbatim>\<open>include/core/message/payload\<close> with their \<^verbatim>\<open>serialize\<close> and \<^verbatim>\<open>deserialize\<close> methods
  (\<^verbatim>\<open>src/core/message/payload\<close>). \<^verbatim>\<open>deserialize\<close> is a method that overwrites an existing object, so its model
  takes the old object too; it throws \<^verbatim>\<open>std::runtime_error\<close> when the buffer is too short.

  The locale \<open>payload_codec\<close> is the contract of \<^verbatim>\<open>IPayload\<close>; \<open>overwriting_payload\<close> adds that nothing of the old
  object survives. All payloads keep the first, all but \<^verbatim>\<open>NackPayload\<close> the second.
\<close>

section \<open>Operations\<close>

record HelloPayload =
  hello_agent_id :: u32
  hello_version :: u32

definition new_HelloPayload :: "u32 \<Rightarrow> u32 \<Rightarrow> HelloPayload" where
  "new_HelloPayload i v = \<lparr>hello_agent_id = i, hello_version = v\<rparr>"

definition Hello_serialize :: "HelloPayload \<Rightarrow> bytes" where
  "Hello_serialize p = write_u32_be (write_u32_be [] (hello_agent_id p)) (hello_version p)"

definition Hello_deserialize :: "bytes \<Rightarrow> HelloPayload \<Rightarrow> exn + HelloPayload" where
  "Hello_deserialize data p =
     (if length data < 8 then Inl (runtime_error ''Invalid HelloPayload size'')
      else ebind (read_u32_be data 0) (\<lambda>a.
           ebind (read_u32_be data 4) (\<lambda>v.
           Inr (p\<lparr>hello_agent_id := a, hello_version := v\<rparr>))))"

text \<open>A heartbeat has no fields.\<close>

type_synonym HeartbeatPayload = unit

definition Heartbeat_serialize :: "HeartbeatPayload \<Rightarrow> bytes" where
  "Heartbeat_serialize p = []"

definition Heartbeat_deserialize :: "bytes \<Rightarrow> HeartbeatPayload \<Rightarrow> exn + HeartbeatPayload" where
  "Heartbeat_deserialize data p = Inr p"

record StatePayload =
  state_mode :: u32
  state_load :: f32
  state_temp :: f32
  state_last_rc :: i32

definition new_StatePayload :: "u32 \<Rightarrow> f32 \<Rightarrow> f32 \<Rightarrow> i32 \<Rightarrow> StatePayload" where
  "new_StatePayload m l temp rc = \<lparr>state_mode = m, state_load = l, state_temp = temp, state_last_rc = rc\<rparr>"

definition State_serialize :: "StatePayload \<Rightarrow> bytes" where
  "State_serialize p =
     write_u32_be (write_float_be (write_float_be (write_u32_be [] (state_mode p)) (state_load p)) (state_temp p))
       (state_last_rc p)"

definition State_deserialize :: "bytes \<Rightarrow> StatePayload \<Rightarrow> exn + StatePayload" where
  "State_deserialize data p =
     (if length data < 16 then Inl (runtime_error ''Invalid StatePayload size'')
      else ebind (read_u32_be data 0) (\<lambda>m.
           ebind (read_float_be data 4) (\<lambda>l.
           ebind (read_float_be data 8) (\<lambda>t.
           ebind (read_u32_be data 12) (\<lambda>rc.
           Inr (p\<lparr>state_mode := m, state_load := l, state_temp := t, state_last_rc := rc\<rparr>))))))"

record CmdSetModePayload =
  set_mode :: u32

definition new_CmdSetModePayload :: "u32 \<Rightarrow> CmdSetModePayload" where
  "new_CmdSetModePayload m = \<lparr>set_mode = m\<rparr>"

definition CmdSetMode_serialize :: "CmdSetModePayload \<Rightarrow> bytes" where
  "CmdSetMode_serialize p = write_u32_be [] (set_mode p)"

definition CmdSetMode_deserialize :: "bytes \<Rightarrow> CmdSetModePayload \<Rightarrow> exn + CmdSetModePayload" where
  "CmdSetMode_deserialize data p =
     (if length data < 4 then Inl (runtime_error ''Invalid CmdSetModePayload size'')
      else ebind (read_u32_be data 0) (\<lambda>m. Inr (p\<lparr>set_mode := m\<rparr>)))"

record AckPayload =
  ack_cmd_id :: u32

definition new_AckPayload :: "u32 \<Rightarrow> AckPayload" where
  "new_AckPayload i = \<lparr>ack_cmd_id = i\<rparr>"

definition Ack_serialize :: "AckPayload \<Rightarrow> bytes" where
  "Ack_serialize p = write_u32_be [] (ack_cmd_id p)"

definition Ack_deserialize :: "bytes \<Rightarrow> AckPayload \<Rightarrow> exn + AckPayload" where
  "Ack_deserialize data p =
     (if length data < 4 then Inl (runtime_error ''Invalid AckPayload size'')
      else ebind (read_u32_be data 0) (\<lambda>c. Inr (p\<lparr>ack_cmd_id := c\<rparr>)))"

text \<open>The characters of a \<^verbatim>\<open>std::string\<close> are bytes.\<close>

definition byte_of_char :: "char \<Rightarrow> u8" where
  "byte_of_char c = word_of_nat (of_char c)"

definition char_of_byte :: "u8 \<Rightarrow> char" where
  "char_of_byte b = char_of (unat b)"

record NackPayload =
  nack_cmd_id :: u32
  nack_reason :: string

definition new_NackPayload :: "u32 \<Rightarrow> string \<Rightarrow> NackPayload" where
  "new_NackPayload i r = \<lparr>nack_cmd_id = i, nack_reason = r\<rparr>"

definition Nack_serialize :: "NackPayload \<Rightarrow> bytes" where
  "Nack_serialize p = write_u32_be [] (nack_cmd_id p) @ map byte_of_char (nack_reason p)"

definition Nack_deserialize :: "bytes \<Rightarrow> NackPayload \<Rightarrow> exn + NackPayload" where
  "Nack_deserialize data p =
     (if length data < 4 then Inl (runtime_error ''Invalid NackPayload size'')
      else ebind (read_u32_be data 0) (\<lambda>c.
           let p = p\<lparr>nack_cmd_id := c\<rparr> in
           if length data > 4 then Inr (p\<lparr>nack_reason := map char_of_byte (drop 4 data)\<rparr>) else Inr p))"

lemmas new_payload_defs [simp] =
  new_HelloPayload_def new_StatePayload_def new_CmdSetModePayload_def new_AckPayload_def new_NackPayload_def

text \<open>Objects as the default constructors leave them, once value-initialised.\<close>

definition Hello_fresh :: HelloPayload where
  "Hello_fresh = \<lparr>hello_agent_id = 0, hello_version = 0\<rparr>"

definition State_fresh :: StatePayload where
  "State_fresh = \<lparr>state_mode = 0, state_load = 0, state_temp = 0, state_last_rc = 0\<rparr>"

definition CmdSetMode_fresh :: CmdSetModePayload where
  "CmdSetMode_fresh = \<lparr>set_mode = 0\<rparr>"

definition Ack_fresh :: AckPayload where
  "Ack_fresh = \<lparr>ack_cmd_id = 0\<rparr>"

definition Nack_fresh :: NackPayload where
  "Nack_fresh = \<lparr>nack_cmd_id = 0, nack_reason = []\<rparr>"

section \<open>The contract of \<^verbatim>\<open>IPayload\<close>\<close>

locale payload_codec =
  fixes ser :: "'p \<Rightarrow> bytes"
    and des :: "bytes \<Rightarrow> 'p \<Rightarrow> exn + 'p"
    and fresh :: 'p
    and min_len :: nat
    and complaint :: string
  assumes des_ser: "des (ser p) fresh = Inr p"
    and des_short: "length data < min_len \<Longrightarrow> des data q = Inl (runtime_error complaint)"
    and des_long: "min_len \<le> length data \<Longrightarrow> \<exists>p. des data q = Inr p"
    and ser_long: "min_len \<le> length (ser p)"
begin

lemma ser_inj: "ser p = ser q \<longleftrightarrow> p = q"
  using des_ser by (metis Inr_inject)

text \<open>The only way to fail is the documented exception; no read leaves the buffer.\<close>

lemma des_error_iff: "des data q = Inl e \<longleftrightarrow> e = runtime_error complaint \<and> length data < min_len"
  using des_short des_long by (metis Inl_Inr_False Inl_inject linorder_not_le)

lemma des_ok_iff: "(\<exists>p. des data q = Inr p) \<longleftrightarrow> min_len \<le> length data"
  using des_short des_long by (metis Inl_Inr_False linorder_not_le)

end

locale overwriting_payload = payload_codec +
  assumes des_overwrites: "des data q = des data q'"
begin

lemma des_ser_any: "des (ser p) q = Inr p"
  using des_ser des_overwrites by metis

end

lemma char_of_byte_of_char [simp]: "char_of_byte (byte_of_char c) = c"
  by (simp add: char_of_byte_def byte_of_char_def unat_of_nat)

lemma byte_of_char_of_byte [simp]: "byte_of_char (char_of_byte b) = b"
proof -
  have "unat b < 256"
    using unsigned_less [of b, where ?'a = nat] by simp
  then show ?thesis
    by (simp add: char_of_byte_def byte_of_char_def of_char_of)
qed

lemma u32_fields:
  "read_u32_be (write_u32_be [] a) 0 = Inr a"
  "4 \<le> length data \<Longrightarrow> \<exists>v. read_u32_be data 0 = Inr v"
  using u32.get_front [of a "[]"] u32.get_ok_iff [of data 0] by simp_all

interpretation hello: overwriting_payload Hello_serialize Hello_deserialize Hello_fresh 8 "''Invalid HelloPayload size''"
proof
  show "Hello_deserialize (Hello_serialize p) Hello_fresh = Inr p" for p
    by (simp add: Hello_serialize_def Hello_deserialize_def u32.put_append [of "write_u32_be _ _"] codec_reads)
  show "\<exists>p. Hello_deserialize data q = Inr p" if "8 \<le> length data" for data q
    using that u32.get_ok_iff [of data 0] u32.get_ok_iff [of data 4] by (auto simp: Hello_deserialize_def)
  show "Hello_deserialize data q = Hello_deserialize data q'" for data q q'
    by (cases q, cases q') (simp add: Hello_deserialize_def)
qed (simp_all add: Hello_deserialize_def Hello_serialize_def)

interpretation heartbeat: overwriting_payload Heartbeat_serialize Heartbeat_deserialize "()" 0 "''''"
  by unfold_locales (simp_all add: Heartbeat_deserialize_def Heartbeat_serialize_def)

interpretation state: overwriting_payload State_serialize State_deserialize State_fresh 16 "''Invalid StatePayload size''"
proof
  show "State_deserialize (State_serialize p) State_fresh = Inr p" for p
  proof -
    let ?a = "write_u32_be [] (state_mode p)" and ?b = "write_float_be [] (state_load p)"
      and ?c = "write_float_be [] (state_temp p)" and ?d = "write_u32_be [] (state_last_rc p)"
    have ser: "State_serialize p = ?a @ ?b @ ?c @ ?d"
      by (simp add: State_serialize_def u32.put_append [of "write_float_be _ _"] float.put_append [of "write_float_be _ _"]
          float.put_append [of "write_u32_be _ _"] float.put_append [of "_ @ _"] u32.put_append [of "_ @ _"])
    have "read_float_be (State_serialize p) 8 = Inr (state_temp p)"
      using float.get_at [of "?a @ ?b" 8] by (simp add: ser)
    moreover have "read_u32_be (State_serialize p) 12 = Inr (state_last_rc p)"
      using u32.get_at_end [of "?a @ ?b @ ?c" 12] by (simp add: ser)
    ultimately show ?thesis
      by (simp add: State_deserialize_def) (simp add: ser codec_reads)
  qed
  show "\<exists>p. State_deserialize data q = Inr p" if "16 \<le> length data" for data q
    using that u32.get_ok_iff [of data 0] float.get_ok_iff [of data 4] float.get_ok_iff [of data 8] u32.get_ok_iff [of data 12]
    by (auto simp: State_deserialize_def)
  show "State_deserialize data q = State_deserialize data q'" for data q q'
    by (cases q, cases q') (simp add: State_deserialize_def)
qed (simp_all add: State_deserialize_def State_serialize_def)

interpretation set_mode: overwriting_payload CmdSetMode_serialize CmdSetMode_deserialize CmdSetMode_fresh 4
    "''Invalid CmdSetModePayload size''"
proof
  show "CmdSetMode_deserialize data q = CmdSetMode_deserialize data q'" for data q q'
    by (cases q, cases q') (simp add: CmdSetMode_deserialize_def)
qed (auto simp: CmdSetMode_deserialize_def CmdSetMode_serialize_def u32_fields dest: u32_fields(2))

interpretation ack: overwriting_payload Ack_serialize Ack_deserialize Ack_fresh 4 "''Invalid AckPayload size''"
proof
  show "Ack_deserialize data q = Ack_deserialize data q'" for data q q'
    by (cases q, cases q') (simp add: Ack_deserialize_def)
qed (auto simp: Ack_deserialize_def Ack_serialize_def u32_fields dest: u32_fields(2))

interpretation nack: payload_codec Nack_serialize Nack_deserialize Nack_fresh 4 "''Invalid NackPayload size''"
proof
  show "Nack_deserialize (Nack_serialize p) Nack_fresh = Inr p" for p
    by (simp add: Nack_deserialize_def Nack_serialize_def codec_reads Nack_fresh_def Let_def comp_def)
  show "\<exists>p. Nack_deserialize data q = Inr p" if "4 \<le> length data" for data q
    using that u32_fields(2) [OF that] by (auto simp: Nack_deserialize_def Let_def)
qed (simp_all add: Nack_deserialize_def Nack_serialize_def)

text \<open>What \<^verbatim>\<open>NackPayload::deserialize\<close> does with the old object: an empty reason leaves the old one in place.\<close>

lemma Nack_deserialize_into:
  "Nack_deserialize (Nack_serialize p) q =
     Inr (if nack_reason p = [] then p\<lparr>nack_reason := nack_reason q\<rparr> else p)"
  by (simp add: Nack_deserialize_def Nack_serialize_def codec_reads Let_def comp_def)

section \<open>Properties\<close>

text \<open>C30: every payload is decoded to itself. For five of the six this holds whatever object it is decoded into;
  a \<^verbatim>\<open>NackPayload\<close> with an empty reason keeps the reason the target object had before.\<close>

theorem payload_roundtrips:
  "Hello_deserialize (Hello_serialize hp) hp' = Inr hp \<and>
   Heartbeat_deserialize (Heartbeat_serialize bp) bp' = Inr bp \<and>
   State_deserialize (State_serialize sp) sp' = Inr sp \<and>
   CmdSetMode_deserialize (CmdSetMode_serialize cp) cp' = Inr cp \<and>
   Ack_deserialize (Ack_serialize ap) ap' = Inr ap \<and>
   Nack_deserialize (Nack_serialize np) np' =
     Inr (if nack_reason np = [] then np\<lparr>nack_reason := nack_reason np'\<rparr> else np)"
  by (simp add: hello.des_ser_any heartbeat.des_ser_any state.des_ser_any set_mode.des_ser_any ack.des_ser_any
      Nack_deserialize_into)

text \<open>Decoding a payload fails exactly on a buffer below the minimum size, always with the documented exception
  and never by reading past the end.\<close>

lemma payload_errors_exact:
  "(Hello_deserialize data hp = Inl e \<longleftrightarrow> e = runtime_error ''Invalid HelloPayload size'' \<and> length data < 8) \<and>
   (State_deserialize data sp = Inl e \<longleftrightarrow> e = runtime_error ''Invalid StatePayload size'' \<and> length data < 16) \<and>
   (CmdSetMode_deserialize data cp = Inl e \<longleftrightarrow> e = runtime_error ''Invalid CmdSetModePayload size'' \<and> length data < 4) \<and>
   (Ack_deserialize data ap = Inl e \<longleftrightarrow> e = runtime_error ''Invalid AckPayload size'' \<and> length data < 4) \<and>
   (Nack_deserialize data np = Inl e \<longleftrightarrow> e = runtime_error ''Invalid NackPayload size'' \<and> length data < 4)"
  by (simp add: hello.des_error_iff state.des_error_iff set_mode.des_error_iff ack.des_error_iff nack.des_error_iff)

end
