(* ===== verification/Session.thy ===== *)
theory Session
  imports Tcp_Comm Payloads
begin

text \<open>
  \<^verbatim>\<open>src/controller/AgentTcpSession.cpp\<close>: what the controller keeps per registered agent. A session owns one
  connection, a heartbeat time, a map of commands waiting for an acknowledgement, and one message object
  it reuses for every mode command. Message objects are shared by pointer, so the world keeps them in the
  store of the message pool and pending commands hold addresses: a command that is resent is encoded
  from whatever the object holds at that time.

  The locale \<open>agent_comm\<close> is the part of \<^verbatim>\<open>IAgentComm\<close> the loops of the controller rely on.
\<close>

section \<open>State\<close>

text \<open>\<^verbatim>\<open>MetricsTracker.hpp\<close>: atomic counters at their widths.\<close>

record MetricsTracker =
  active_connections :: i32
  command_failures :: u64
  total_rtt_ms :: u64
  rtt_samples :: u64

definition new_MetricsTracker :: MetricsTracker where
  "new_MetricsTracker = \<lparr>active_connections = 0, command_failures = 0, total_rtt_ms = 0, rtt_samples = 0\<rparr>"

record PendingCommand =
  pc_msg :: addr
  last_send :: time_point
  retry_count :: nat

record AgentTcpSession =
  session_conn :: "nat option"
  session_id :: u32
  last_heartbeat :: time_point
  pending_cmds :: "(u32 \<times> PendingCommand) list"
  payload_set_mode :: CmdSetModePayload
  msg_set_mode :: addr
  has_tracker :: bool

record session_world = io_world +
  msgs :: MessagePool
  tracker :: MetricsTracker

section \<open>Operations\<close>

definition upd_tracker :: "(MetricsTracker \<Rightarrow> MetricsTracker) \<Rightarrow> 'a session_world_scheme \<Rightarrow> 'a session_world_scheme" where
  "upd_tracker f w = w\<lparr>tracker := f (tracker w)\<rparr>"

text \<open>\<^verbatim>\<open>conn->send(msg)\<close> on connection \<open>i\<close>: the object behind the pointer is encoded now.\<close>

definition comm_send :: "IMessageParser \<Rightarrow> nat \<Rightarrow> addr \<Rightarrow> 'a session_world_scheme \<Rightarrow> 'a session_world_scheme" where
  "comm_send P i p w =
     (case heap (msgs w) p of
        None \<Rightarrow> w
      | Some m \<Rightarrow> upd_conn i (tcp_send P m) w)"

text \<open>The constructor; \<open>now\<close> and \<open>now_ms\<close> are the readings of the steady and of the system clock.\<close>

definition new_AgentTcpSession ::
    "time_point \<Rightarrow> u64 \<Rightarrow> nat \<Rightarrow> 'a session_world_scheme \<Rightarrow> AgentTcpSession \<times> 'a session_world_scheme" where
  "new_AgentTcpSession now now_ms i w =
     (let (p, ms) = acquire (new_Message now_ms CMD_SET_MODE [] 0 0 0) (msgs w)
      in (\<lparr>session_conn = Some i, session_id = 0, last_heartbeat = now, pending_cmds = [],
           payload_set_mode = CmdSetMode_fresh, msg_set_mode = p, has_tracker = True\<rparr>, w\<lparr>msgs := ms\<rparr>))"

text \<open>The destructor gives the session's message object back to the pool.\<close>

definition destroy_session :: "AgentTcpSession \<Rightarrow> 'a session_world_scheme \<Rightarrow> 'a session_world_scheme" where
  "destroy_session s w = w\<lparr>msgs := release (msg_set_mode s) (msgs w)\<rparr>"

definition session_send :: "IMessageParser \<Rightarrow> addr \<Rightarrow> AgentTcpSession \<Rightarrow> 'a session_world_scheme \<Rightarrow> 'a session_world_scheme" where
  "session_send P p s w = (case session_conn s of None \<Rightarrow> w | Some i \<Rightarrow> comm_send P i p w)"

definition getAgentId :: "AgentTcpSession \<Rightarrow> u32" where
  "getAgentId s = session_id s"

definition setAgentId :: "u32 \<Rightarrow> AgentTcpSession \<Rightarrow> AgentTcpSession" where
  "setAgentId i s = s\<lparr>session_id := i\<rparr>"

definition isHealthy :: "time_point \<Rightarrow> AgentTcpSession \<Rightarrow> 'a session_world_scheme \<Rightarrow> bool" where
  "isHealthy now s w =
     (let connection_live = (case Option.bind (session_conn s) (conns w) of None \<Rightarrow> False | Some c \<Rightarrow> isConnected c);
          heartbeat_ok = to_seconds (now - last_heartbeat s) < 3
      in connection_live \<and> heartbeat_ok)"

definition session_disconnect :: "AgentTcpSession \<Rightarrow> 'a session_world_scheme \<Rightarrow> AgentTcpSession \<times> 'a session_world_scheme" where
  "session_disconnect s w =
     (case session_conn s of
        None \<Rightarrow> (s, w)
      | Some i \<Rightarrow> (s\<lparr>session_conn := None\<rparr>, upd_conn i tcp_disconnect w))"

definition flushPendingCommands :: "IMessageParser \<Rightarrow> AgentTcpSession \<Rightarrow> 'a session_world_scheme \<Rightarrow> AgentTcpSession \<times> 'a session_world_scheme" where
  "flushPendingCommands P s w =
     (if pending_cmds s = []
      then (s, case session_conn s of None \<Rightarrow> w | Some i \<Rightarrow> upd_conn i flushAndDisconnect w)
      else
        (let w = fold (\<lambda>(k, pc) w. case session_conn s of None \<Rightarrow> w | Some i \<Rightarrow> comm_send P i (pc_msg pc) w) (pending_cmds s) w;
             w = (case session_conn s of None \<Rightarrow> w | Some i \<Rightarrow> upd_conn i flushAndDisconnect w)
         in (s\<lparr>pending_cmds := []\<rparr>, w)))"

definition updateHeartbeat :: "time_point \<Rightarrow> AgentTcpSession \<Rightarrow> AgentTcpSession" where
  "updateHeartbeat now s = s\<lparr>last_heartbeat := now\<rparr>"

text \<open>The one message object of the session is rewritten in place and its address returned.\<close>

definition getSetModeMsg ::
    "u32 \<Rightarrow> u32 \<Rightarrow> AgentTcpSession \<Rightarrow> 'a session_world_scheme \<Rightarrow> addr \<times> AgentTcpSession \<times> 'a session_world_scheme" where
  "getSetModeMsg mode hid s w =
     (let pl = (payload_set_mode s)\<lparr>set_mode := mode\<rparr>;
          p = msg_set_mode s;
          rewrite = (\<lambda>m. m\<lparr>payload := CmdSetMode_serialize pl,
                          header := (header m)\<lparr>header_id := hid, payload_len := word_of_nat (length (CmdSetMode_serialize pl))\<rparr>\<rparr>)
      in (p, s\<lparr>payload_set_mode := pl\<rparr>,
          (case heap (msgs w) p of None \<Rightarrow> w | Some m \<Rightarrow> w\<lparr>msgs := store p (rewrite m) (msgs w)\<rparr>)))"

definition handleAck :: "time_point \<Rightarrow> u32 \<Rightarrow> AgentTcpSession \<Rightarrow> 'a session_world_scheme \<Rightarrow> AgentTcpSession \<times> 'a session_world_scheme" where
  "handleAck now cmd_id s w =
     (case map_of (pending_cmds s) cmd_id of
        None \<Rightarrow> (s, w)
      | Some pc \<Rightarrow>
          (let rtt = to_millis (now - last_send pc);
               w = (if has_tracker s
                    then upd_tracker (\<lambda>t. t\<lparr>total_rtt_ms := total_rtt_ms t + word_of_int rtt, rtt_samples := rtt_samples t + 1\<rparr>) w
                    else w)
           in (s\<lparr>pending_cmds := AList.delete cmd_id (pending_cmds s)\<rparr>, w)))"

definition trackCommand :: "time_point \<Rightarrow> addr \<Rightarrow> AgentTcpSession \<Rightarrow> 'a session_world_scheme \<Rightarrow> AgentTcpSession" where
  "trackCommand now p s w =
     (case heap (msgs w) p of
        None \<Rightarrow> s
      | Some m \<Rightarrow>
          s\<lparr>pending_cmds := omap_insert (header_id (header m)) \<lparr>pc_msg = p, last_send = now, retry_count = 0\<rparr> (pending_cmds s)\<rparr>)"

definition MAX_CMD_RETRIES :: nat where
  "MAX_CMD_RETRIES = 5"

text \<open>The loop of \<^verbatim>\<open>checkCommandTimeouts\<close> over the pending commands in key order.\<close>

fun check_pending ::
    "IMessageParser \<Rightarrow> time_point \<Rightarrow> nat option \<Rightarrow> bool \<Rightarrow> (u32 \<times> PendingCommand) list \<Rightarrow> 'a session_world_scheme \<Rightarrow>
     (u32 \<times> PendingCommand) list \<times> 'a session_world_scheme" where
  "check_pending P now cn tr [] w = ([], w)"
| "check_pending P now cn tr ((k, pc) # rest) w =
     (let wait_sec = 2 ^ retry_count pc
      in if to_seconds (now - last_send pc) \<ge> wait_sec then
           if retry_count pc < MAX_CMD_RETRIES then
             (let pc' = pc\<lparr>retry_count := retry_count pc + 1, last_send := now\<rparr>;
                  w = (case cn of None \<Rightarrow> w | Some i \<Rightarrow> comm_send P i (pc_msg pc) w);
                  (rest', w) = check_pending P now cn tr rest w
              in ((k, pc') # rest', w))
           else
             (let w = (if tr then upd_tracker (\<lambda>t. t\<lparr>command_failures := command_failures t + 1\<rparr>) w else w);
                  w = (case cn of None \<Rightarrow> w | Some i \<Rightarrow> upd_conn i tcp_disconnect w)
              in check_pending P now cn tr rest w)
         else
           (let (rest', w) = check_pending P now cn tr rest w
            in ((k, pc) # rest', w)))"

definition checkCommandTimeouts :: "IMessageParser \<Rightarrow> time_point \<Rightarrow> AgentTcpSession \<Rightarrow> 'a session_world_scheme \<Rightarrow> AgentTcpSession \<times> 'a session_world_scheme" where
  "checkCommandTimeouts P now s w =
     (let (pcs, w) = check_pending P now (session_conn s) (has_tracker s) (pending_cmds s) w
      in (s\<lparr>pending_cmds := pcs\<rparr>, w))"

section \<open>What an operation posts\<close>

definition post :: "task list \<Rightarrow> TcpComm \<Rightarrow> TcpComm" where
  "post ts c = c\<lparr>posted := posted c @ ts\<rparr>"

definition post_on :: "nat option \<Rightarrow> task list \<Rightarrow> 'a session_world_scheme \<Rightarrow> 'a session_world_scheme" where
  "post_on cn ts w = (case cn of None \<Rightarrow> w | Some i \<Rightarrow> upd_conn i (post ts) w)"

definition add_failures :: "nat \<Rightarrow> 'a session_world_scheme \<Rightarrow> 'a session_world_scheme" where
  "add_failures n w = upd_tracker (\<lambda>t. t\<lparr>command_failures := command_failures t + word_of_nat n\<rparr>) w"

definition send_tasks :: "IMessageParser \<Rightarrow> (addr \<rightharpoonup> Message) \<Rightarrow> addr \<Rightarrow> task list" where
  "send_tasks P h p = (case h p of None \<Rightarrow> [] | Some m \<Rightarrow> [Push_frame (parser_serialize P m)])"

lemma post_simps [simp]:
  "posted (post ts c) = posted c @ ts"
  "is_open (post ts c) = is_open c" "isConnected (post ts c) = isConnected c"
  by (simp_all add: post_def isConnected_def)

lemma post_parts: "post [] = (\<lambda>c. c)" "post (ts @ us) = (\<lambda>c. post us (post ts c))"
  by (simp_all add: fun_eq_iff post_def)

lemma upd_conn_same [simp]: "upd_conn i (\<lambda>c. c) w = w"
  by (cases "conns w i") (auto simp: upd_conn_def fun_upd_idem)

lemma upd_conn_twice: "upd_conn i g (upd_conn i f w) = upd_conn i (\<lambda>c. g (f c)) w"
  by (cases "conns w i") (simp_all add: upd_conn_def)

lemma post_on_append: "post_on cn (ts @ us) w = post_on cn us (post_on cn ts w)"
  by (simp add: post_on_def upd_conn_twice post_parts split: option.split)

lemma post_on_Nil [simp]: "post_on cn [] w = w"
  by (simp add: post_on_def post_parts split: option.split)

lemma post_on_None [simp]: "post_on None ts w = w"
  by (simp add: post_on_def)

lemma post_on_simps [simp]:
  "msgs (post_on cn ts w) = msgs w" "tracker (post_on cn ts w) = tracker w"
  "conns (post_on (Some i) ts w) i = map_option (post ts) (conns w i)"
  "cn \<noteq> Some j \<Longrightarrow> conns (post_on cn ts w) j = conns w j"
  by (simp_all add: post_on_def upd_conn_def split: option.split)

lemma add_failures_simps [simp]:
  "msgs (add_failures n w) = msgs w" "conns (add_failures n w) = conns w" "add_failures 0 w = w"
  "tracker (add_failures n w) = (tracker w)\<lparr>command_failures := command_failures (tracker w) + word_of_nat n\<rparr>"
  by (simp_all add: add_failures_def upd_tracker_def)

lemma add_failures_add: "add_failures n (add_failures k w) = add_failures (k + n) w"
  by (simp add: add_failures_def upd_tracker_def add.assoc)

lemma post_add_failures: "post_on cn ts (add_failures n w) = add_failures n (post_on cn ts w)"
  by (simp add: post_on_def add_failures_def upd_tracker_def upd_conn_def split: option.split)

lemma tcp_posts:
  "tcp_send P m = post [Push_frame (parser_serialize P m)]" "tcp_disconnect = post [Close_socket]"
  "flushAndDisconnect = post [Flush_close]"
  by (simp_all add: fun_eq_iff tcp_send_def tcp_disconnect_def flushAndDisconnect_def post_def)

lemma comm_send_posts: "comm_send P i p w = post_on (Some i) (send_tasks P (heap (msgs w)) p) w"
  by (simp add: comm_send_def post_on_def send_tasks_def tcp_posts post_parts split: option.split)

lemma session_send_posts: "session_send P p s w = post_on (session_conn s) (send_tasks P (heap (msgs w)) p) w"
  by (simp add: session_send_def comm_send_posts split: option.split)

lemma disconnect_posts: "session_disconnect s w = (s\<lparr>session_conn := None\<rparr>, post_on (session_conn s) [Close_socket] w)"
  by (simp add: session_disconnect_def tcp_posts post_on_def split: option.split)

text \<open>A flush encodes every pending command, in key order, and then closes gracefully.\<close>

lemma flush_posts:
  "flushPendingCommands P s w =
     (s\<lparr>pending_cmds := []\<rparr>,
      post_on (session_conn s) (concat (map (\<lambda>(k, pc). send_tasks P (heap (msgs w)) (pc_msg pc)) (pending_cmds s)) @ [Flush_close]) w)"
proof -
  have sends: "fold (\<lambda>(k, pc) w. case session_conn s of None \<Rightarrow> w | Some i \<Rightarrow> comm_send P i (pc_msg pc) w) pcs w =
      post_on (session_conn s) (concat (map (\<lambda>(k, pc). send_tasks P (heap (msgs w)) (pc_msg pc)) pcs)) w" for pcs
    by (induction pcs arbitrary: w) (auto simp: comm_send_posts post_on_append split: option.split)
  show ?thesis
    by (simp add: flushPendingCommands_def sends post_on_append Let_def)
      (auto simp: post_on_def tcp_posts split: option.split)
qed

section \<open>Command timeouts\<close>

text \<open>The life of one pending command, as a function of the time of the check.\<close>

definition due :: "time_point \<Rightarrow> PendingCommand \<Rightarrow> bool" where
  "due now pc \<longleftrightarrow> 2 ^ retry_count pc * 1000000000 \<le> now - last_send pc"

definition advance :: "time_point \<Rightarrow> PendingCommand \<Rightarrow> PendingCommand option" where
  "advance now pc =
     (if due now pc
      then if retry_count pc < MAX_CMD_RETRIES then Some (pc\<lparr>retry_count := Suc (retry_count pc), last_send := now\<rparr>) else None
      else Some pc)"

definition due_tasks :: "IMessageParser \<Rightarrow> (addr \<rightharpoonup> Message) \<Rightarrow> time_point \<Rightarrow> PendingCommand \<Rightarrow> task list" where
  "due_tasks P h now pc =
     (if due now pc then if retry_count pc < MAX_CMD_RETRIES then send_tasks P h (pc_msg pc) else [Close_socket] else [])"

definition advance_all :: "time_point \<Rightarrow> (u32 \<times> PendingCommand) list \<Rightarrow> (u32 \<times> PendingCommand) list" where
  "advance_all now = List.map_filter (\<lambda>(k, pc). map_option (Pair k) (advance now pc))"

lemma check_pending_eq:
  "check_pending P now cn tr pcs w =
     (advance_all now pcs,
      add_failures (if tr then length (filter (\<lambda>(k, pc). advance now pc = None) pcs) else 0)
        (post_on cn (concat (map (\<lambda>(k, pc). due_tasks P (heap (msgs w)) now pc) pcs)) w))"
proof (induction P now cn tr pcs w rule: check_pending.induct)
  case (1 P now cn tr w)
  then show ?case by (simp add: advance_all_def List.map_filter_simps)
next
  case (2 P now cn tr k pc rest w)
  have due: "2 ^ retry_count pc \<le> to_seconds (now - last_send pc) \<longleftrightarrow> due now pc"
    using to_seconds_ge_iff [of "2 ^ retry_count pc" "now - last_send pc"] by (simp add: due_def)
  have sends: "(case cn of None \<Rightarrow> w | Some i \<Rightarrow> comm_send P i p w) = post_on cn (send_tasks P (heap (msgs w)) p) w" for p
    by (simp add: comm_send_posts split: option.split)
  have close: "(case cn of None \<Rightarrow> u | Some i \<Rightarrow> upd_conn i tcp_disconnect u) = post_on cn [Close_socket] u" for u :: "'a session_world_scheme"
    by (simp add: tcp_posts post_on_def split: option.split)
  have fail: "(if tr then upd_tracker (\<lambda>t. t\<lparr>command_failures := command_failures t + 1\<rparr>) w else w) =
      add_failures (if tr then 1 else 0) w"
    by (cases tr) (simp_all add: add_failures_def upd_tracker_def)
  consider "\<not> due now pc" | "due now pc" "retry_count pc < MAX_CMD_RETRIES" | "due now pc" "\<not> retry_count pc < MAX_CMD_RETRIES"
    by blast
  then show ?case
  proof cases
    case 1
    then show ?thesis
      using 2(3) due by (simp add: advance_all_def List.map_filter_simps advance_def due_tasks_def)
  next
    case 2
    then show ?thesis
      using "2.IH"(1) [unfolded sends, OF refl] due
      by (simp add: sends advance_all_def List.map_filter_simps advance_def due_tasks_def post_on_append)
  next
    case 3
    then show ?thesis
      using "2.IH"(2) [unfolded fail close, OF refl] due
      by (simp add: fail close advance_all_def List.map_filter_simps advance_def due_tasks_def post_on_append
          post_add_failures add_failures_add flip: append_Cons)
  qed
qed

lemma checkCommandTimeouts_eq:
  "checkCommandTimeouts P now s w =
     (s\<lparr>pending_cmds := advance_all now (pending_cmds s)\<rparr>,
      add_failures (if has_tracker s then length (filter (\<lambda>(k, pc). advance now pc = None) (pending_cmds s)) else 0)
        (post_on (session_conn s) (concat (map (\<lambda>(k, pc). due_tasks P (heap (msgs w)) now pc) (pending_cmds s))) w))"
  by (simp add: checkCommandTimeouts_def check_pending_eq)

lemma set_advance_all:
  "(k, pc') \<in> set (advance_all now pcs) \<longleftrightarrow> (\<exists>pc. (k, pc) \<in> set pcs \<and> advance now pc = Some pc')"
  by (induction pcs) (auto simp: advance_all_def List.map_filter_simps split: option.splits)

lemma advance_all_sorted:
  "sorted_wrt (<) (map fst pcs) \<Longrightarrow> sorted_wrt (<) (map fst (advance_all now pcs))"
proof (induction pcs)
  case (Cons x pcs)
  then show ?case
    using set_advance_all [of _ _ now pcs]
    by (cases x) (fastforce simp: advance_all_def List.map_filter_simps split: option.splits)
qed (simp add: advance_all_def List.map_filter_simps)

lemma map_of_advance_all:
  assumes "sorted_wrt (<) (map fst pcs)"
  shows "map_of (advance_all now pcs) k = Option.bind (map_of pcs k) (advance now)"
proof -
  have d: "distinct (map fst pcs)" "distinct (map fst (advance_all now pcs))"
    using assms advance_all_sorted sorted_wrt_distinct by blast+
  have "map_of (advance_all now pcs) k = Some pc' \<longleftrightarrow> Option.bind (map_of pcs k) (advance now) = Some pc'" for pc'
    using d set_advance_all [of k pc' now pcs] by (auto simp: bind_eq_Some_conv)
  then show ?thesis
    by (metis not_Some_eq)
qed

section \<open>Invariant\<close>

definition session_inv :: "AgentTcpSession \<Rightarrow> bool" where
  "session_inv s \<longleftrightarrow>
     sorted_wrt (<) (map fst (pending_cmds s)) \<and> (\<forall>(k, pc) \<in> set (pending_cmds s). retry_count pc \<le> MAX_CMD_RETRIES)"

lemma session_inv_cong: "pending_cmds s = pending_cmds s' \<Longrightarrow> session_inv s \<longleftrightarrow> session_inv s'"
  by (simp add: session_inv_def)

lemma in_set_omap_insert: "x \<in> set (omap_insert k v xs) \<Longrightarrow> x = (k, v) \<or> x \<in> set xs"
  by (induction k v xs rule: omap_insert.induct) (auto split: if_splits)

lemma track_inv: "session_inv s \<Longrightarrow> session_inv (trackCommand now p s w)"
  by (auto simp: session_inv_def trackCommand_def omap_insert_sorted split: option.split dest!: in_set_omap_insert)

lemma ack_inv: "session_inv s \<Longrightarrow> session_inv (fst (handleAck now c s w))"
  by (auto simp: session_inv_def handleAck_def omap_delete_sorted Let_def in_set_delete split: option.split)

lemma timeouts_inv: "session_inv s \<Longrightarrow> session_inv (fst (checkCommandTimeouts P now s w))"
  by (auto simp: session_inv_def checkCommandTimeouts_eq advance_all_sorted set_advance_all advance_def MAX_CMD_RETRIES_def
      split: if_splits)

lemma other_session_inv:
  "session_inv (fst (new_AgentTcpSession now ms i w))"
  "session_inv s \<Longrightarrow> session_inv (setAgentId a s)"
  "session_inv s \<Longrightarrow> session_inv (fst (session_disconnect s w))"
  "session_inv (fst (flushPendingCommands P s w))"
  "session_inv s \<Longrightarrow> session_inv (updateHeartbeat now s)"
  "session_inv s \<Longrightarrow> session_inv (fst (snd (getSetModeMsg mode hid s w)))"
  by (simp_all add: session_inv_def new_AgentTcpSession_def setAgentId_def disconnect_posts flush_posts updateHeartbeat_def
      getSetModeMsg_def Let_def case_prod_beta)

text \<open>The sessions the operations can produce, each operation meeting an arbitrary world.\<close>

inductive session_run :: "AgentTcpSession \<Rightarrow> bool" where
  sess_new: "session_run (fst (new_AgentTcpSession now ms i (w :: session_world)))"
| sess_id: "session_run s \<Longrightarrow> session_run (setAgentId a s)"
| sess_disconnect: "session_run s \<Longrightarrow> session_run (fst (session_disconnect s (w :: session_world)))"
| sess_flush: "session_run s \<Longrightarrow> session_run (fst (flushPendingCommands P s (w :: session_world)))"
| sess_heartbeat: "session_run s \<Longrightarrow> session_run (updateHeartbeat now s)"
| sess_msg: "session_run s \<Longrightarrow> session_run (fst (snd (getSetModeMsg mode hid s (w :: session_world))))"
| sess_ack: "session_run s \<Longrightarrow> session_run (fst (handleAck now c s (w :: session_world)))"
| sess_track: "session_run s \<Longrightarrow> session_run (trackCommand now p s (w :: session_world))"
| sess_check: "session_run s \<Longrightarrow> session_run (fst (checkCommandTimeouts P now s (w :: session_world)))"

lemma session_run_inv: "session_run s \<Longrightarrow> session_inv s"
  by (induction rule: session_run.induct) (simp_all add: other_session_inv track_inv ack_inv timeouts_inv)

section \<open>The contract of \<^verbatim>\<open>IAgentComm\<close>\<close>

text \<open>
  \<open>backlog w i\<close> are the closures posted on connection \<open>i\<close> and not yet run, \<open>enc w p\<close> what sending object \<open>p\<close> posts.
\<close>

locale agent_comm =
  fixes conn_of :: "'s \<Rightarrow> nat option"
    and sendf :: "addr \<Rightarrow> 's \<Rightarrow> 'w \<Rightarrow> 'w"
    and healthy :: "time_point \<Rightarrow> 's \<Rightarrow> 'w \<Rightarrow> bool"
    and backlog :: "'w \<Rightarrow> nat \<Rightarrow> task list"
    and enc :: "'w \<Rightarrow> addr \<Rightarrow> task list"
  assumes send_own: "healthy t s w \<Longrightarrow> conn_of s = Some i \<Longrightarrow> backlog (sendf p s w) i = backlog w i @ enc w p"
    and send_other: "conn_of s \<noteq> Some j \<Longrightarrow> backlog (sendf p s w) j = backlog w j"
    and send_enc: "enc (sendf p s w) q = enc w q"
    and send_healthy: "healthy t s' (sendf p s w) = healthy t s' w"
begin

text \<open>Sending one object to every healthy session, each checked at its own time.\<close>

definition send_healthy_all :: "addr \<Rightarrow> (time_point \<times> 's) list \<Rightarrow> 'w \<Rightarrow> 'w" where
  "send_healthy_all p tss w = fold (\<lambda>(t, s) w. if healthy t s w then sendf p s w else w) tss w"

lemma send_healthy_all_Cons:
  "send_healthy_all p ((t, s) # tss) w = send_healthy_all p tss (if healthy t s w then sendf p s w else w)"
  by (simp add: send_healthy_all_def)

lemma send_healthy_all_backlog:
  assumes "distinct (map (conn_of \<circ> snd) tss)"
  shows "backlog (send_healthy_all p tss w) j =
    backlog w j @ (if \<exists>(t, s) \<in> set tss. conn_of s = Some j \<and> healthy t s w then enc w p else [])"
  using assms
proof (induction tss arbitrary: w)
  case (Cons x tss)
  obtain t s where x: "x = (t, s)" by force
  let ?w = "if healthy t s w then sendf p s w else w"
  have same: "healthy t' s' ?w = healthy t' s' w" "enc ?w p = enc w p" for t' s'
    by (simp_all add: send_healthy send_enc)
  have "\<not> (\<exists>(t', s') \<in> set tss. conn_of s' = Some j)" if "conn_of s = Some j"
    using Cons.prems that x by (force simp: comp_def)
  moreover have "backlog ?w j = backlog w j @ (if conn_of s = Some j \<and> healthy t s w then enc w p else [])"
    by (auto simp: send_own send_other)
  ultimately show ?case
    using Cons.IH [of ?w] Cons.prems same by (auto simp: x send_healthy_all_Cons)
qed (simp add: send_healthy_all_def)

end

definition backlog :: "'a session_world_scheme \<Rightarrow> nat \<Rightarrow> task list" where
  "backlog w i = (case conns w i of None \<Rightarrow> [] | Some c \<Rightarrow> posted c)"

lemma post_on_live [simp]: "isHealthy t s (post_on cn ts w) = isHealthy t s w"
proof -
  have "(case conns (post_on cn ts w) i of None \<Rightarrow> False | Some c \<Rightarrow> isConnected c) =
      (case conns w i of None \<Rightarrow> False | Some c \<Rightarrow> isConnected c)" for i
    by (cases "cn = Some i"; cases "conns w i") simp_all
  then show ?thesis
    by (cases "session_conn s") (simp_all add: isHealthy_def)
qed

lemma backlog_post_on:
  "backlog (post_on cn ts w) i = backlog w i @ (if cn = Some i \<and> conns w i \<noteq> None then ts else [])"
  by (cases "conns w i"; cases "cn = Some i") (simp_all add: backlog_def)

lemma healthy_conn: "isHealthy t s w \<Longrightarrow> \<exists>i c. session_conn s = Some i \<and> conns w i = Some c \<and> is_open c"
  by (auto simp: isHealthy_def bind_eq_Some_conv isConnected_def split: option.splits)

interpretation tcp_session: agent_comm session_conn "session_send P" isHealthy backlog "\<lambda>w. send_tasks P (heap (msgs w))"
  for P
  by unfold_locales (auto simp: session_send_posts backlog_post_on dest: healthy_conn)

section \<open>Repeated checks\<close>

definition check_at :: "IMessageParser \<Rightarrow> time_point list \<Rightarrow> AgentTcpSession \<times> 'a session_world_scheme \<Rightarrow> AgentTcpSession \<times> 'a session_world_scheme" where
  "check_at P ts sw = fold (\<lambda>t (s, w). checkCommandTimeouts P t s w) ts sw"

lemma check_at_simps [simp]:
  "check_at P [] sw = sw" "check_at P (t # ts) (s, w) = check_at P ts (checkCommandTimeouts P t s w)"
  by (simp_all add: check_at_def)

lemma check_at_pending:
  "session_inv s \<Longrightarrow>
   map_of (pending_cmds (fst (check_at P ts (s, w)))) k = fold (\<lambda>t pc. Option.bind pc (advance t)) ts (map_of (pending_cmds s) k)"
proof (induction ts arbitrary: s w)
  case (Cons t ts)
  obtain s' w' where s': "checkCommandTimeouts P t s w = (s', w')" by force
  then have "session_inv s'"
    using timeouts_inv [OF Cons.prems, of P t w] by simp
  moreover have "map_of (pending_cmds s') k = Option.bind (map_of (pending_cmds s) k) (advance t)"
    using s' Cons.prems map_of_advance_all by (auto simp: checkCommandTimeouts_eq session_inv_def)
  ultimately show ?case
    using Cons.IH [of s' w'] s' by simp
qed simp

text \<open>Seconds a command with \<open>r\<close> retries still has at least: the remaining waits sum to \<open>64 - 2\<close> to the \<open>r\<close>.\<close>

lemma power_retry_bound: "retry_count pc \<le> MAX_CMD_RETRIES \<Longrightarrow> 2 ^ retry_count pc \<le> (32 :: int)"
  using power_increasing [of "retry_count pc" 5 "2 :: int"] by (simp add: MAX_CMD_RETRIES_def)

lemma gives_up_late:
  "fold (\<lambda>t pc. Option.bind pc (advance t)) ts (Some pc) = None \<Longrightarrow> retry_count pc \<le> MAX_CMD_RETRIES \<Longrightarrow>
   \<exists>t \<in> set ts. last_send pc + (64 - 2 ^ retry_count pc) * 1000000000 \<le> t"
proof (induction ts arbitrary: pc)
  case (Cons t ts)
  consider "\<not> due t pc" | "due t pc" "retry_count pc < MAX_CMD_RETRIES" | "due t pc" "retry_count pc = MAX_CMD_RETRIES"
    using Cons.prems(2) by linarith
  then show ?case
  proof cases
    case 1
    then show ?thesis
      using Cons by (auto simp: advance_def)
  next
    case 2
    let ?pc = "pc\<lparr>retry_count := Suc (retry_count pc), last_send := t\<rparr>"
    have "\<exists>u \<in> set ts. t + (64 - 2 * 2 ^ retry_count pc) * 1000000000 \<le> u"
      using Cons.IH [of ?pc] Cons.prems(1) 2 by (simp add: advance_def)
    then show ?thesis
      using 2(1) by (force simp: due_def algebra_simps)
  next
    case 3
    then show ?thesis
      by (auto simp: due_def MAX_CMD_RETRIES_def)
  qed
qed simp

lemma fold_bind_None: "fold (\<lambda>t pc. Option.bind pc (f t)) ts None = None"
  by (induction ts) simp_all

section \<open>The retry schedule\<close>

text \<open>
  The schedule, said without the session's bookkeeping. A command that was sent at \<open>t\<close> is acted on at the first check at least one second
  later, then at the first check at least two seconds after that, and so on; \<open>attempts\<close> are the times this happens among
  the times of the checks. The first five actions are resends, the sixth gives the command up. A command that has been resent \<open>r\<close> times is
  at position \<open>r\<close> of the schedule.
\<close>

definition backoff :: "int list" where
  "backoff = [1000000000, 2000000000, 4000000000, 8000000000, 16000000000, 32000000000]"

fun attempts :: "int list \<Rightarrow> time_point \<Rightarrow> time_point list \<Rightarrow> time_point list" where
  "attempts [] t ts = []"
| "attempts (d # ds) t ts = (case dropWhile (\<lambda>x. x - t < d) ts of [] \<Rightarrow> [] | x # rest \<Rightarrow> x # attempts ds x rest)"

definition attempts_of :: "time_point list \<Rightarrow> PendingCommand \<Rightarrow> time_point list" where
  "attempts_of ts pc = attempts (drop (retry_count pc) backoff) (last_send pc) ts"

definition given_up :: "time_point list \<Rightarrow> PendingCommand \<Rightarrow> bool" where
  "given_up ts pc \<longleftrightarrow> length (attempts_of ts pc) = 6 - retry_count pc"

definition resend_tasks :: "IMessageParser \<Rightarrow> (addr \<rightharpoonup> Message) \<Rightarrow> time_point list \<Rightarrow> PendingCommand \<Rightarrow> task list" where
  "resend_tasks P h ts pc =
     concat (replicate (min 5 (retry_count pc + length (attempts_of ts pc)) - retry_count pc) (send_tasks P h (pc_msg pc))) @
     (if given_up ts pc then [Close_socket] else [])"

text \<open>One check at a time.\<close>

lemma backoff_drop: "r \<le> MAX_CMD_RETRIES \<Longrightarrow> drop r backoff = (2 ^ r * 1000000000) # drop (Suc r) backoff"
  by (simp add: MAX_CMD_RETRIES_def le_less_Suc_eq [symmetric] backoff_def)
    (auto simp: numeral_eq_Suc le_Suc_eq)

lemma attempts_of_Nil: "retry_count pc \<le> MAX_CMD_RETRIES \<Longrightarrow> attempts_of [] pc = []"
  by (simp add: attempts_of_def backoff_drop)

lemma attempts_of_Cons:
  assumes "retry_count pc \<le> MAX_CMD_RETRIES"
  shows "attempts_of (t # ts) pc =
    (if due t pc then t # (if retry_count pc < MAX_CMD_RETRIES then attempts_of ts (pc\<lparr>retry_count := Suc (retry_count pc), last_send := t\<rparr>) else [])
     else attempts_of ts pc)"
proof -
  have "drop (Suc (retry_count pc)) backoff = []" if "\<not> retry_count pc < MAX_CMD_RETRIES"
    using that by (simp add: MAX_CMD_RETRIES_def backoff_def)
  then show ?thesis
    using assms by (auto simp: attempts_of_def backoff_drop due_def)
qed

lemma given_up_Cons:
  assumes "retry_count pc \<le> MAX_CMD_RETRIES"
  shows "given_up (t # ts) pc \<longleftrightarrow> (case advance t pc of None \<Rightarrow> True | Some pc' \<Rightarrow> given_up ts pc')"
  using assms by (auto simp: given_up_def attempts_of_Cons advance_def MAX_CMD_RETRIES_def)

lemma advance_retries: "advance t pc = Some pc' \<Longrightarrow> retry_count pc \<le> MAX_CMD_RETRIES \<Longrightarrow> retry_count pc' \<le> MAX_CMD_RETRIES"
  by (auto simp: advance_def split: if_splits)

lemma resend_tasks_Cons:
  assumes r: "retry_count pc \<le> MAX_CMD_RETRIES"
  shows "resend_tasks P h (t # ts) pc =
    due_tasks P h t pc @ (case advance t pc of None \<Rightarrow> [] | Some pc' \<Rightarrow> resend_tasks P h ts pc')"
proof -
  consider "\<not> due t pc" | "due t pc" "retry_count pc < MAX_CMD_RETRIES" | "due t pc" "retry_count pc = MAX_CMD_RETRIES"
    using r by linarith
  then show ?thesis
  proof cases
    case 1
    then show ?thesis
      using r by (simp add: resend_tasks_def given_up_Cons attempts_of_Cons advance_def due_tasks_def)
  next
    case 2
    let ?pc = "pc\<lparr>retry_count := Suc (retry_count pc), last_send := t\<rparr>"
    have "min 5 (retry_count pc + Suc (length (attempts_of ts ?pc))) - retry_count pc =
        Suc (min 5 (Suc (retry_count pc) + length (attempts_of ts ?pc)) - Suc (retry_count pc))"
      using 2(2) unfolding MAX_CMD_RETRIES_def by linarith
    then show ?thesis
      using r 2 by (simp add: resend_tasks_def given_up_Cons attempts_of_Cons advance_def due_tasks_def)
  next
    case 3
    then show ?thesis
      by (simp add: resend_tasks_def given_up_Cons attempts_of_Cons advance_def due_tasks_def MAX_CMD_RETRIES_def)
  qed
qed

lemma resend_tasks_Nil: "retry_count pc \<le> MAX_CMD_RETRIES \<Longrightarrow> resend_tasks P h [] pc = []" "retry_count pc \<le> MAX_CMD_RETRIES \<Longrightarrow> \<not> given_up [] pc"
  by (simp_all add: resend_tasks_def given_up_def attempts_of_Nil MAX_CMD_RETRIES_def)

text \<open>The bookkeeping of one command follows the schedule.\<close>

lemma schedule_followed:
  "retry_count pc \<le> MAX_CMD_RETRIES \<Longrightarrow>
   fold (\<lambda>t pc. Option.bind pc (advance t)) ts (Some pc) =
     (if given_up ts pc then None
      else Some (pc\<lparr>retry_count := retry_count pc + length (attempts_of ts pc), last_send := last (last_send pc # attempts_of ts pc)\<rparr>))"
proof (induction ts arbitrary: pc)
  case (Cons t ts)
  show ?case
  proof (cases "advance t pc")
    case None
    then show ?thesis
      using Cons.prems by (simp add: given_up_Cons fold_bind_None)
  next
    case (Some pc')
    with Cons.IH [OF advance_retries [OF Some Cons.prems]] Cons.prems show ?thesis
      by (auto simp: given_up_Cons attempts_of_Cons advance_def split: if_splits)
  qed
qed (simp add: attempts_of_Nil resend_tasks_Nil)

text \<open>What all checks together post and count.\<close>

lemma sum_advance_all:
  "(\<Sum>(k, pc)\<leftarrow>advance_all t pcs. g pc) = (\<Sum>(k, pc)\<leftarrow>pcs. case advance t pc of None \<Rightarrow> 0 | Some pc' \<Rightarrow> g pc')"
  for g :: "PendingCommand \<Rightarrow> 'b :: comm_monoid_add"
  by (induction pcs) (auto simp: advance_all_def List.map_filter_simps split: option.split)


lemma mset_concat_map: "mset (concat (map f xs)) = (\<Sum>x\<leftarrow>xs. mset (f x))"
  by (induction xs) simp_all

lemma length_filter_sum: "length (filter (\<lambda>(k, pc). p pc) xs) = (\<Sum>(k, pc)\<leftarrow>xs. if p pc then 1 else 0)"
  by (induction xs) auto

lemma sum_list_cong_add: "(\<And>x. x \<in> set xs \<Longrightarrow> h x = f x + g x) \<Longrightarrow> (\<Sum>x\<leftarrow>xs. h x) = (\<Sum>x\<leftarrow>xs. f x) + (\<Sum>x\<leftarrow>xs. g x)"
  for h :: "'x \<Rightarrow> 'b :: comm_monoid_add"
  by (simp add: sum_list_addf [symmetric] cong: map_cong)

lemma check_at_effect:
  "session_inv s \<Longrightarrow>
   \<exists>T. snd (check_at P ts (s, w)) =
        add_failures (if has_tracker s then length (filter (\<lambda>(k, pc). given_up ts pc) (pending_cmds s)) else 0) (post_on (session_conn s) T w) \<and>
      mset T = (\<Sum>(k, pc)\<leftarrow>pending_cmds s. mset (resend_tasks P (heap (msgs w)) ts pc)) \<and>
      (\<forall>k pc. pending_cmds s = [(k, pc)] \<longrightarrow> T = resend_tasks P (heap (msgs w)) ts pc)"
proof (induction ts arbitrary: s w)
  case Nil
  have "filter (\<lambda>(k, pc). given_up [] pc) (pending_cmds s) = []"
    using Nil by (auto simp: session_inv_def resend_tasks_Nil filter_empty_conv)
  moreover have "map (\<lambda>(k, pc). mset (resend_tasks P (heap (msgs w)) [] pc)) (pending_cmds s) = map (\<lambda>x. {#}) (pending_cmds s)"
    using Nil by (auto simp: session_inv_def resend_tasks_Nil)
  then have "(\<Sum>(k, pc)\<leftarrow>pending_cmds s. mset (resend_tasks P (heap (msgs w)) [] pc)) = {#}"
    by (simp only: sum_list_0)
  ultimately show ?case
    using Nil by (intro exI [of _ "[]"]) (auto simp: session_inv_def resend_tasks_Nil)
next
  case (Cons t ts)
  let ?h = "heap (msgs w)" and ?pcs = "pending_cmds s"
  let ?s = "s\<lparr>pending_cmds := advance_all t ?pcs\<rparr>" and ?D = "concat (map (\<lambda>(k, pc). due_tasks P ?h t pc) ?pcs)"
  let ?n = "if has_tracker s then length (filter (\<lambda>(k, pc). advance t pc = None) ?pcs) else 0"
  let ?w = "add_failures ?n (post_on (session_conn s) ?D w)"
  have step: "checkCommandTimeouts P t s w = (?s, ?w)"
    by (rule checkCommandTimeouts_eq)
  have inv: "session_inv ?s"
    using timeouts_inv [OF Cons.prems, of P t w] step by simp
  obtain T where T0: "snd (check_at P ts (?s, ?w)) =
        add_failures (if has_tracker ?s then length (filter (\<lambda>(k, pc). given_up ts pc) (pending_cmds ?s)) else 0) (post_on (session_conn ?s) T ?w)"
      "mset T = (\<Sum>(k, pc)\<leftarrow>pending_cmds ?s. mset (resend_tasks P (heap (msgs ?w)) ts pc))"
      "\<forall>k pc. pending_cmds ?s = [(k, pc)] \<longrightarrow> T = resend_tasks P (heap (msgs ?w)) ts pc"
    using Cons.IH [OF inv, of ?w] by blast
  have same: "has_tracker ?s = has_tracker s" "pending_cmds ?s = advance_all t ?pcs" "session_conn ?s = session_conn s" "heap (msgs ?w) = ?h"
    by simp_all
  note T = T0 [unfolded same]
  have r: "retry_count pc \<le> MAX_CMD_RETRIES" if "(k, pc) \<in> set ?pcs" for k pc
    using Cons.prems that by (auto simp: session_inv_def)
  have n: "length (filter (\<lambda>(k, pc). given_up (t # ts) pc) ?pcs) =
      length (filter (\<lambda>(k, pc). advance t pc = None) ?pcs) + length (filter (\<lambda>(k, pc). given_up ts pc) (advance_all t ?pcs))"
    unfolding length_filter_sum sum_advance_all
    by (rule sum_list_cong_add) (auto simp: given_up_Cons r split: option.split)
  have m: "mset (?D @ T) = (\<Sum>(k, pc)\<leftarrow>?pcs. mset (resend_tasks P ?h (t # ts) pc))"
    unfolding mset_append T(2) sum_advance_all mset_concat_map
    by (rule sum_list_cong_add [symmetric]) (auto simp: resend_tasks_Cons r split: option.split)
  have one: "?D @ T = resend_tasks P ?h (t # ts) pc" if "?pcs = [(k, pc)]" for k pc
    using T(2,3) that r [of k pc] by (auto simp: resend_tasks_Cons advance_all_def List.map_filter_simps split: option.splits)
  have "snd (check_at P (t # ts) (s, w)) =
      add_failures (if has_tracker s then length (filter (\<lambda>(k, pc). given_up (t # ts) pc) ?pcs) else 0) (post_on (session_conn s) (?D @ T) w)"
    using T(1) n step by (simp add: post_on_append post_add_failures add_failures_add)
  with m one show ?case by blast
qed

section \<open>Properties\<close>

text \<open>A world with one connection and a session that has sent and tracks mode command 9.\<close>

definition sample_world :: session_world where
  "sample_world = \<lparr>conns = [0 \<mapsto> ready_conn], msgs = empty_pool, tracker = new_MetricsTracker\<rparr>"

definition sample_tracked :: "AgentTcpSession \<times> session_world" where
  "sample_tracked =
     (let (s, w) = new_AgentTcpSession 0 0 0 sample_world;
          (p, s, w) = getSetModeMsg 1 9 s w
      in (trackCommand 0 p s w, w))"

abbreviation command_9 :: Message where
  "command_9 \<equiv> new_Message 0 CMD_SET_MODE [0, 0, 0, 1] 0 9 0"

lemma sample_tracked_eq:
  "sample_tracked =
     (\<lparr>session_conn = Some 0, session_id = 0, last_heartbeat = 0,
       pending_cmds = [(9, \<lparr>pc_msg = 0, last_send = 0, retry_count = 0\<rparr>)],
       payload_set_mode = \<lparr>set_mode = 1\<rparr>, msg_set_mode = 0, has_tracker = True\<rparr>,
      \<lparr>conns = [0 \<mapsto> ready_conn], msgs = \<lparr>heap = [0 \<mapsto> command_9], pool = [], next_addr = 1\<rparr>, tracker = new_MetricsTracker\<rparr>)"
  by (simp add: sample_tracked_def sample_world_def new_AgentTcpSession_def acquire_def empty_pool_def getSetModeMsg_def
      store_def trackCommand_def new_Message_def CmdSetMode_fresh_def CmdSetMode_serialize_def write_u32_be_def)

lemma sample_tracked_run: "session_run (fst sample_tracked)"
proof -
  obtain s w where new: "new_AgentTcpSession 0 0 0 sample_world = (s, w)" by force
  obtain p s' w' where msg: "getSetModeMsg 1 9 s w = (p, s', w')" by (cases "getSetModeMsg 1 9 s w") auto
  have "session_run s"
    using sess_new [of 0 0 0 sample_world] new by simp
  then have "session_run s'"
    using sess_msg [of s 1 9 w] msg by simp
  then have "session_run (trackCommand 0 p s' w')"
    by (rule sess_track)
  with new msg show ?thesis
    by (simp add: sample_tracked_def)
qed

text \<open>However often and whenever the timeouts are checked, a command that was just tracked is not given up before
  63 seconds (1 + 2 + 4 + 8 + 16 + 32) have passed since it was first sent.\<close>

lemma command_not_given_up_early:
  assumes "session_run s" "map_of (pending_cmds s) k = Some pc" "retry_count pc = 0"
    and "map_of (pending_cmds (fst (check_at P ts (s, w)))) k = None"
  shows "\<exists>t \<in> set ts. last_send pc + 63 * 1000000000 \<le> t"
  using gives_up_late [of ts pc] check_at_pending [OF session_run_inv [OF assms(1)], of P ts w k] assms(2,3,4) by simp

text \<open>C17: commands that are not acknowledged follow the retry schedule, whatever the times of the checks and however many are pending. After
  any sequence of checks every command is pending exactly if its schedule has not ended, with the number and the time of its last
  resend; the connection was handed one frame per resend, at most five for a command, and one disconnect per command given
  up, for a single command in this order, and nothing else; each command given up is counted as a failure.\<close>

theorem unanswered_command_dropped:
  assumes s: "session_run s" "session_conn s = Some i" "has_tracker s" and w: "conns w i = Some c" and c: "check_at P ts (s, w) = (s', w')"
  shows "(\<forall>k. map_of (pending_cmds s') k =
      (case map_of (pending_cmds s) k of
         None \<Rightarrow> None
       | Some pc \<Rightarrow> if given_up ts pc then None
           else Some (pc\<lparr>retry_count := retry_count pc + length (attempts_of ts pc), last_send := last (last_send pc # attempts_of ts pc)\<rparr>))) \<and>
    (\<exists>T. conns w' i = Some (c\<lparr>posted := posted c @ T\<rparr>) \<and>
      mset T = (\<Sum>(k, pc)\<leftarrow>pending_cmds s. mset (resend_tasks P (heap (msgs w)) ts pc)) \<and>
      (\<forall>k pc. pending_cmds s = [(k, pc)] \<longrightarrow> T = resend_tasks P (heap (msgs w)) ts pc)) \<and>
    command_failures (tracker w') = command_failures (tracker w) + word_of_nat (length (filter (\<lambda>(k, pc). given_up ts pc) (pending_cmds s)))"
proof -
  note inv = session_run_inv [OF s(1)]
  have "map_of (pending_cmds s') k =
      (case map_of (pending_cmds s) k of
         None \<Rightarrow> None
       | Some pc \<Rightarrow> if given_up ts pc then None
           else Some (pc\<lparr>retry_count := retry_count pc + length (attempts_of ts pc), last_send := last (last_send pc # attempts_of ts pc)\<rparr>))" for k
  proof (cases "map_of (pending_cmds s) k")
    case None
    then show ?thesis
      using check_at_pending [OF inv, of P ts w k] c by (simp add: fold_bind_None)
  next
    case (Some pc)
    then have "retry_count pc \<le> MAX_CMD_RETRIES"
      using inv by (auto simp: session_inv_def dest!: map_of_SomeD)
    with Some show ?thesis
      using check_at_pending [OF inv, of P ts w k] c schedule_followed [of pc ts] by simp
  qed
  moreover obtain T where "w' = add_failures (length (filter (\<lambda>(k, pc). given_up ts pc) (pending_cmds s))) (post_on (Some i) T w)"
      "mset T = (\<Sum>(k, pc)\<leftarrow>pending_cmds s. mset (resend_tasks P (heap (msgs w)) ts pc))"
      "\<forall>k pc. pending_cmds s = [(k, pc)] \<longrightarrow> T = resend_tasks P (heap (msgs w)) ts pc"
    using check_at_effect [OF inv, of P ts w] c s(2,3) by auto
  ultimately show ?thesis
    using w by (auto simp: post_def)
qed

text \<open>Checks before, at and after the ends of the waits: five resends, then the command is given up.\<close>

theorem unanswered_command_dropped_witness:
  "\<exists>s' w'. check_at (BinaryMessageParser 0)
       [500000000, 1000000000, 2000000000, 3000000000, 7000000000, 15000000000, 31000000000, 62000000000, 63000000000, 99000000000]
       sample_tracked = (s', w') \<and>
     map_of (pending_cmds s') 9 = None \<and> command_failures (tracker w') = 1 \<and>
     conns w' 0 = Some (ready_conn\<lparr>posted := posted ready_conn @ replicate 5 (Push_frame (serialize command_9)) @ [Close_socket]\<rparr>)"
proof -
  let ?ts = "[500000000, 1000000000, 2000000000, 3000000000, 7000000000, 15000000000, 31000000000, 62000000000, 63000000000, 99000000000]"
  let ?pc = "\<lparr>pc_msg = 0, last_send = 0, retry_count = 0\<rparr>"
  obtain s w where sw: "sample_tracked = (s, w)" by force
  then have s: "session_conn s = Some 0" "has_tracker s" "pending_cmds s = [(9, ?pc)]" "conns w 0 = Some ready_conn" "heap (msgs w) 0 = Some command_9"
      "command_failures (tracker w) = 0"
    by (auto simp: sample_tracked_eq new_MetricsTracker_def)
  have a: "attempts_of ?ts ?pc = [1000000000, 3000000000, 7000000000, 15000000000, 31000000000, 63000000000]"
    by (simp add: attempts_of_def backoff_def)
  then have g: "given_up ?ts ?pc"
    by (simp add: given_up_def)
  have r: "resend_tasks (BinaryMessageParser 0) (heap (msgs w)) ?ts ?pc = replicate 5 (Push_frame (serialize command_9)) @ [Close_socket]"
    using g s(5) by (simp add: resend_tasks_def a send_tasks_def numeral_eq_Suc)
  obtain s' w' where c: "check_at (BinaryMessageParser 0) ?ts (s, w) = (s', w')" by force
  have "session_run s"
    using sample_tracked_run sw by (metis fst_conv)
  from unanswered_command_dropped [OF this s(1,2,4) c] show ?thesis
    using c s(3,6) g r by (simp add: sw)
qed

text \<open>In every session the operations can produce, the pending commands are keyed by distinct, increasing ids and none
  has been retried more than five times, so the wait computed by shifting stays below 33 seconds.\<close>

lemma session_invariant:
  assumes "session_run s"
  shows "sorted_wrt (<) (map fst (pending_cmds s)) \<and>
    (\<forall>k pc. map_of (pending_cmds s) k = Some pc \<longrightarrow> retry_count pc \<le> 5 \<and> (2 ^ retry_count pc :: int) \<le> 32)"
  using session_run_inv [OF assms] power_retry_bound
  by (auto simp: session_inv_def MAX_CMD_RETRIES_def dest!: map_of_SomeD)

text \<open>An acknowledgement removes exactly its command from the pending map and counts one round-trip sample; an
  acknowledgement of an unknown, late or already acknowledged command changes nothing.\<close>

lemma acknowledgement_settles_once:
  "map_of (pending_cmds (fst (handleAck now k s w))) = (map_of (pending_cmds s))(k := None) \<and>
   handleAck now' k (fst (handleAck now k s w)) w' = (fst (handleAck now k s w), w') \<and>
   snd (handleAck now k s w) =
     (case map_of (pending_cmds s) k of
        None \<Rightarrow> w
      | Some pc \<Rightarrow> if has_tracker s
          then w\<lparr>tracker := (tracker w)\<lparr>total_rtt_ms := total_rtt_ms (tracker w) + word_of_int (to_millis (now - last_send pc)),
                                    rtt_samples := rtt_samples (tracker w) + 1\<rparr>\<rparr>
          else w)"
proof (cases "map_of (pending_cmds s) k")
  case None
  then show ?thesis by (simp add: handleAck_def fun_upd_idem)
next
  case (Some pc)
  then show ?thesis by (simp add: handleAck_def delete_conv' upd_tracker_def)
qed

text \<open>A session is healthy exactly while its socket is open and less than three seconds have passed since the last
  heartbeat, to the nanosecond.\<close>

lemma healthy_exactly:
  "isHealthy now s w \<longleftrightarrow>
     (\<exists>i c. session_conn s = Some i \<and> conns w i = Some c \<and> is_open c) \<and> now - last_heartbeat s < 3 * 1000000000"
proof -
  have "to_seconds (now - last_heartbeat s) < 3 \<longleftrightarrow> now - last_heartbeat s < 3 * 1000000000"
    using to_seconds_ge_iff [of 3 "now - last_heartbeat s"] by linarith
  then show ?thesis
    by (auto simp: isHealthy_def bind_eq_Some_conv isConnected_def split: option.splits)
qed

text \<open>C31: the pending commands of a session share one message object. When a second mode command is tracked before the
  first is acknowledged, the resend of the first carries the id and the mode of the second: the first id is never
  sent again.\<close>

theorem resend_carries_newer_command:
  assumes m: "heap (msgs w) (msg_set_mode s) = Some m" and s: "session_conn s = Some i" "pending_cmds s = []"
    and c: "conns w i = Some c" and ids: "id1 < id2"
    and g1: "getSetModeMsg mode1 id1 s w = (p1, s1, w1)" and s2: "s2 = trackCommand t1 p1 s1 w1"
    and g2: "getSetModeMsg mode2 id2 s2 w1 = (p3, s3, w3)" and s4: "s4 = trackCommand t2 p3 s3 w3"
    and due: "t1 + 1000000000 \<le> now" "now < t2 + 1000000000"
    and frame: "frame = parser_serialize P (m\<lparr>payload := CmdSetMode_serialize \<lparr>set_mode = mode2\<rparr>,
                  header := (header m)\<lparr>header_id := id2, payload_len := 4\<rparr>\<rparr>)"
  shows "map fst (pending_cmds s4) = [id1, id2] \<and>
    conns (snd (checkCommandTimeouts P now s4 w3)) i = Some (c\<lparr>posted := posted c @ [Push_frame frame]\<rparr>)"
proof -
  have len: "length (CmdSetMode_serialize pl) = 4" for pl
    by (simp add: CmdSetMode_serialize_def)
  have rec: "(x :: CmdSetModePayload)\<lparr>set_mode := v\<rparr> = \<lparr>set_mode = v\<rparr>" for x v
    by (cases x) simp
  let ?m1 = "m\<lparr>payload := CmdSetMode_serialize \<lparr>set_mode = mode1\<rparr>, header := (header m)\<lparr>header_id := id1, payload_len := 4\<rparr>\<rparr>"
  let ?m2 = "m\<lparr>payload := CmdSetMode_serialize \<lparr>set_mode = mode2\<rparr>, header := (header m)\<lparr>header_id := id2, payload_len := 4\<rparr>\<rparr>"
  have w1: "p1 = msg_set_mode s" "heap (msgs w1) p1 = Some ?m1" "conns w1 = conns w"
    and s1: "msg_set_mode s1 = msg_set_mode s" "pending_cmds s1 = []" "session_conn s1 = Some i"
    using g1 m s by (auto simp: getSetModeMsg_def Let_def store_def len rec)
  have s2': "pending_cmds s2 = [(id1, \<lparr>pc_msg = p1, last_send = t1, retry_count = 0\<rparr>)]"
      "msg_set_mode s2 = msg_set_mode s" "session_conn s2 = Some i"
    using s2 s1 w1 by (simp_all add: trackCommand_def)
  have w3: "p3 = p1" "heap (msgs w3) p1 = Some ?m2" "conns w3 = conns w"
    and s3: "pending_cmds s3 = pending_cmds s2" "session_conn s3 = Some i"
    using g2 w1 s2' by (auto simp: getSetModeMsg_def Let_def store_def len rec)
  have s4': "pending_cmds s4 = [(id1, \<lparr>pc_msg = p1, last_send = t1, retry_count = 0\<rparr>), (id2, \<lparr>pc_msg = p1, last_send = t2, retry_count = 0\<rparr>)]"
      "session_conn s4 = Some i"
    using s4 s3 s2' w3 ids less_asym [OF ids] by (auto simp: trackCommand_def)
  then show ?thesis
    using w3 c due frame
    by (simp add: checkCommandTimeouts_eq due_tasks_def due_def send_tasks_def post_def MAX_CMD_RETRIES_def)
qed

theorem resend_carries_newer_command_witness:
  "\<exists>s (w :: session_world) frame. conns (snd (checkCommandTimeouts (BinaryMessageParser 0) 2000000000 s w)) 0 =
       Some (ready_conn\<lparr>posted := posted ready_conn @ [Push_frame frame]\<rparr>) \<and> map fst (pending_cmds s) = [3, 4]"
proof -
  obtain s w where new: "new_AgentTcpSession 0 0 0 sample_world = (s, w)" by force
  have s: "heap (msgs w) (msg_set_mode s) = Some (new_Message 0 CMD_SET_MODE [] 0 0 0)" "session_conn s = Some 0"
      "pending_cmds s = []" "conns w 0 = Some ready_conn"
    using new by (auto simp: new_AgentTcpSession_def sample_world_def acquire_def empty_pool_def)
  obtain p1 s1 w1 where g1: "getSetModeMsg 1 3 s w = (p1, s1, w1)" by (cases "getSetModeMsg 1 3 s w") auto
  obtain p3 s3 w3 where g2: "getSetModeMsg 0 4 (trackCommand 0 p1 s1 w1) w1 = (p3, s3, w3)"
    by (cases "getSetModeMsg 0 4 (trackCommand 0 p1 s1 w1) w1") auto
  have "(3 :: u32) < 4" "0 + 1000000000 \<le> (2000000000 :: int)" "2000000000 < 1500000000 + (1000000000 :: int)"
    by simp_all
  from resend_carries_newer_command [OF s(1-4) this(1) g1 refl g2 refl this(2,3) refl, of "BinaryMessageParser 0"]
  show ?thesis by (elim conjE) (intro exI conjI)
qed

end
