(* ===== verification/Decimal.thy ===== *)
theory Decimal
  imports Prelude
begin

text \<open>
  Decimal text as the standard library writes and reads it: \<^verbatim>\<open>operator<<\<close> on integers and on a
  \<^verbatim>\<open>double\<close> with the default format, \<^verbatim>\<open>std::stoi\<close> and \<^verbatim>\<open>std::stoul\<close>. The metrics endpoint prints with the first, the two
  \<^verbatim>\<open>main\<close> functions read with the second.
\<close>

section \<open>Integers\<close>

definition digit_char :: "nat \<Rightarrow> char" where
  "digit_char d = char_of (48 + d)"

fun dec :: "nat \<Rightarrow> string" where
  "dec n = (if n < 10 then [digit_char n] else dec (n div 10) @ [digit_char (n mod 10)])"

declare dec.simps [simp del]

definition dec_int :: "int \<Rightarrow> string" where
  "dec_int i = (if i < 0 then CHR ''-'' # dec (nat (- i)) else dec (nat i))"

definition is_digit :: "char \<Rightarrow> bool" where
  "is_digit c \<longleftrightarrow> 48 \<le> (of_char c :: nat) \<and> (of_char c :: nat) \<le> 57"

definition digit_val :: "char \<Rightarrow> nat" where
  "digit_val c = of_char c - 48"

text \<open>The value of a string of digits.\<close>

definition undec :: "string \<Rightarrow> nat" where
  "undec s = foldl (\<lambda>v c. 10 * v + digit_val c) 0 s"

section \<open>\<^verbatim>\<open>std::stoi\<close> and \<^verbatim>\<open>std::stoul\<close>\<close>

text \<open>\<^verbatim>\<open>isspace\<close> in the default locale.\<close>

definition is_space :: "char \<Rightarrow> bool" where
  "is_space c \<longleftrightarrow> c = CHR '' '' \<or> 9 \<le> (of_char c :: nat) \<and> (of_char c :: nat) \<le> 13"

text \<open>
  The subject sequence of \<^verbatim>\<open>strtol\<close> and \<^verbatim>\<open>strtoul\<close> in base 10: white space, an optional sign, digits; whether it is negative,
  and its digits. What follows them is ignored.
\<close>

definition subject_sequence :: "string \<Rightarrow> bool \<times> string" where
  "subject_sequence s =
     (case dropWhile is_space s of
        [] \<Rightarrow> (False, [])
      | c # cs \<Rightarrow>
          if c = CHR ''-'' then (True, takeWhile is_digit cs)
          else if c = CHR ''+'' then (False, takeWhile is_digit cs)
          else (False, takeWhile is_digit (c # cs)))"

definition stoul :: "string \<Rightarrow> exn + u64" where
  "stoul s =
     (let (neg, ds) = subject_sequence s
      in if ds = [] then Inl (std_invalid_argument ''stoul'')
         else if 2 ^ 64 \<le> undec ds then Inl (std_out_of_range ''stoul'')
         else Inr (if neg then - word_of_nat (undec ds) else word_of_nat (undec ds)))"

definition stoi :: "string \<Rightarrow> exn + i32" where
  "stoi s =
     (let (neg, ds) = subject_sequence s;
          v = (if neg then - int (undec ds) else int (undec ds))
      in if ds = [] then Inl (std_invalid_argument ''stoi'')
         else if v < - (2 ^ 31) \<or> 2 ^ 31 \<le> v then Inl (std_out_of_range ''stoi'')
         else Inr (word_of_int v))"

section \<open>\<^verbatim>\<open>double\<close>\<close>

text \<open>
  The doubles the metrics use are quotients of two unsigned 64-bit integers. They are exact natural numbers here: an integer in
  units of 1, a quotient in units of \<open>2\<close> to the \<open>-117\<close>; as the smallest positive quotient is above \<open>2\<close> to the \<open>-64\<close>, every double
  of 53 significant bits in this range is such a number. Conversion and division round to nearest, ties to even.
\<close>

fun surplus :: "nat \<Rightarrow> nat" where
  "surplus k = (if k < 2 ^ 53 then 0 else Suc (surplus (k div 2)))"

declare surplus.simps [simp del]

definition half_even :: "nat \<Rightarrow> nat \<Rightarrow> nat" where
  "half_even n d =
     (let q = n div d; r = n mod d
      in if 2 * r > d \<or> 2 * r = d \<and> odd q then q + 1 else q)"

definition round_double :: "nat \<Rightarrow> nat \<Rightarrow> nat" where
  "round_double n d = (let e = surplus (n div d) in half_even n (d * 2 ^ e) * 2 ^ e)"

definition double_of_u64 :: "u64 \<Rightarrow> nat" where
  "double_of_u64 x = round_double (unat x) 1"

definition double_div :: "nat \<Rightarrow> nat \<Rightarrow> nat" where
  "double_div a b = round_double (a * 2 ^ 117) b"

text \<open>
  The default format is \<^verbatim>\<open>%g\<close> with six significant digits: the value is rounded to \<open>d\<close> times \<open>10\<close> to the \<open>X - 5\<close> with \<open>d\<close> of six digits,
  written with an exponent if \<open>X\<close> is below \<open>-4\<close> or above \<open>5\<close>, and without trailing zeros.
\<close>

function lead_zeros :: "nat \<Rightarrow> nat \<Rightarrow> nat" where
  "lead_zeros num den = (if num = 0 \<or> den \<le> num then 0 else Suc (lead_zeros (10 * num) den))"
  by pat_completeness auto
termination
  by (relation "measure (\<lambda>(num, den). den - num)") auto

declare lead_zeros.simps [simp del]

definition decimal_exponent :: "nat \<Rightarrow> nat \<Rightarrow> int" where
  "decimal_exponent num den =
     (if den \<le> num then int (length (dec (num div den))) - 1 else - int (lead_zeros num den))"

definition six_digits :: "nat \<Rightarrow> nat \<Rightarrow> nat \<times> int" where
  "six_digits num den =
     (let X = decimal_exponent num den;
          d = half_even (num * 10 ^ nat (5 - X)) (den * 10 ^ nat (X - 5))
      in if d = 1000000 then (100000, X + 1) else (d, X))"

definition strip_zeros :: "string \<Rightarrow> string" where
  "strip_zeros s = rev (dropWhile (\<lambda>c. c = CHR ''0'') (rev s))"

definition with_point :: "string \<Rightarrow> string \<Rightarrow> string" where
  "with_point i f = (if f = [] then i else i @ CHR ''.'' # f)"

definition exponent_text :: "int \<Rightarrow> string" where
  "exponent_text X =
     CHR ''e'' # (if X < 0 then CHR ''-'' else CHR ''+'') #
       (if \<bar>X\<bar> < 10 then CHR ''0'' # dec (nat \<bar>X\<bar>) else dec (nat \<bar>X\<bar>))"

definition format_g :: "nat \<Rightarrow> nat \<Rightarrow> string" where
  "format_g num den =
     (if num = 0 then ''0''
      else let (d, X) = six_digits num den; ds = dec d
           in if X < - 4 \<or> 6 \<le> X then with_point (take 1 ds) (strip_zeros (drop 1 ds)) @ exponent_text X
              else if X < 0 then with_point ''0'' (strip_zeros (replicate (nat (- X - 1)) CHR ''0'' @ ds))
              else with_point (take (nat X + 1) ds) (strip_zeros (drop (nat X + 1) ds)))"

definition format_double :: "nat \<Rightarrow> string" where
  "format_double u = format_g u (2 ^ 117)"

section \<open>Printing and reading integers\<close>

lemma digit_char_simps [simp]:
  "d < 10 \<Longrightarrow> is_digit (digit_char d)" "d < 10 \<Longrightarrow> digit_val (digit_char d) = d"
  by (simp_all add: is_digit_def digit_val_def digit_char_def of_char_of)

lemma digit_char_0: "digit_char 0 = CHR ''0''"
  by code_simp

lemma dec_digits: "c \<in> set (dec n) \<Longrightarrow> is_digit c"
  by (induction n rule: dec.induct) (subst (asm) dec.simps, auto split: if_splits)

lemma dec_nonempty [simp]: "dec n \<noteq> []"
  by (subst dec.simps) simp

lemma undec_snoc: "undec (s @ [c]) = 10 * undec s + digit_val c"
  by (simp add: undec_def)

lemma undec_dec [simp]: "undec (dec n) = n"
proof (induction n rule: dec.induct)
  case (1 n)
  show ?case
  proof (cases "n < 10")
    case True
    then show ?thesis by (simp add: dec.simps undec_def)
  next
    case False
    with 1 show ?thesis by (simp add: dec.simps [of n] undec_snoc)
  qed
qed

lemma dec_shift: "0 < n \<Longrightarrow> dec (n * 10 ^ j) = dec n @ replicate j CHR ''0''"
proof (induction j)
  case (Suc j)
  have "0 < n * 10 ^ j"
    using Suc.prems by simp
  then have "\<not> 10 * (n * 10 ^ j) < 10"
    by linarith
  then have "\<not> n * 10 ^ Suc j < 10"
    by (simp add: ac_simps)
  then have "dec (n * 10 ^ Suc j) = dec (n * 10 ^ Suc j div 10) @ [digit_char (n * 10 ^ Suc j mod 10)]"
    by (subst dec.simps) simp
  moreover have "n * 10 ^ Suc j div 10 = n * 10 ^ j" "n * 10 ^ Suc j mod 10 = 0"
    by simp_all
  ultimately show ?case
    using Suc by (simp add: digit_char_0 replicate_append_same)
qed simp

lemma dec_length: "n < 10 ^ k \<Longrightarrow> 0 < k \<Longrightarrow> length (dec n) \<le> k"
proof (induction k arbitrary: n)
  case (Suc k)
  show ?case
  proof (cases "n < 10")
    case True
    then show ?thesis by (simp add: dec.simps)
  next
    case False
    then have "0 < k" "n div 10 < 10 ^ k"
      using Suc.prems(1) by (cases k, auto)
    with Suc.IH [of "n div 10"] False show ?thesis
      by (simp add: dec.simps [of n])
  qed
qed simp

text \<open>Characters that are neither digits nor signs separate a number from what follows.\<close>

lemma digits_not [simp]: "is_digit c \<Longrightarrow> \<not> is_space c" "\<not> is_digit (CHR ''-'')" "\<not> is_digit (CHR ''+'')"
  "\<not> is_digit (CHR 0x0A)" "\<not> is_digit (CHR 0x0D)"
  by (auto simp: is_digit_def is_space_def of_char_def)

lemma dec_not_in: "\<not> is_digit c \<Longrightarrow> c \<notin> set (dec n)"
  using dec_digits by blast

lemma dec_int_not_in: "\<not> is_digit c \<Longrightarrow> c \<noteq> CHR ''-'' \<Longrightarrow> c \<notin> set (dec_int i)"
  using dec_not_in by (auto simp: dec_int_def)

lemma subject_dec: "subject_sequence (dec n) = (False, dec n)"
proof -
  obtain c cs where d: "dec n = c # cs"
    using dec_nonempty by (cases "dec n") blast+
  have "takeWhile is_digit (dec n) = dec n"
    by (simp add: takeWhile_eq_all_conv dec_digits)
  moreover have "is_digit c"
    using dec_digits [of c n] by (simp add: d)
  ultimately show ?thesis
    by (auto simp: subject_sequence_def d)
qed

lemma subject_neg_dec: "subject_sequence (CHR ''-'' # dec n) = (True, dec n)"
proof -
  have "takeWhile is_digit (dec n) = dec n"
    by (simp add: takeWhile_eq_all_conv dec_digits)
  then show ?thesis
    by (simp add: subject_sequence_def is_space_def of_char_def)
qed

lemma stoul_dec: "stoul (dec n) = (if n < 2 ^ 64 then Inr (word_of_nat n) else Inl (std_out_of_range ''stoul''))"
  by (simp add: stoul_def subject_dec)

lemma stoi_dec_int:
  "stoi (dec_int i) = (if - (2 ^ 31) \<le> i \<and> i < 2 ^ 31 then Inr (word_of_int i) else Inl (std_out_of_range ''stoi''))"
  by (auto simp: stoi_def dec_int_def subject_dec subject_neg_dec)

section \<open>Exact doubles\<close>

lemma surplus_upper: "k < 2 ^ (53 + m) \<Longrightarrow> surplus k \<le> m"
proof (induction m arbitrary: k)
  case 0
  then show ?case by (simp add: surplus.simps)
next
  case (Suc m)
  have "k div 2 < 2 ^ (53 + m)"
    using Suc.prems less_mult_imp_div_less [of k "2 ^ (53 + m)" 2] by (simp add: power_add)
  with Suc.IH [of "k div 2"] show ?case
    by (subst surplus.simps) simp
qed

lemma half_even_exact [simp]: "0 < d \<Longrightarrow> half_even (k * d) d = k"
  by (simp add: half_even_def)

text \<open>A quotient that fits 53 bits is not rounded.\<close>

lemma round_double_exact:
  assumes "0 < d" "k < 2 ^ 53"
  shows "round_double (k * 2 ^ m * d) d = k * 2 ^ m"
proof -
  let ?e = "surplus (k * 2 ^ m)"
  have "k * 2 ^ m < 2 ^ (53 + m)"
    using assms(2) by (simp add: power_add)
  then have e: "?e \<le> m"
    by (rule surplus_upper)
  then have split: "k * 2 ^ m = k * 2 ^ (m - ?e) * 2 ^ ?e"
    by (simp flip: power_add)
  have eq: "k * 2 ^ m * d = k * 2 ^ (m - ?e) * (d * 2 ^ ?e)"
    by (subst split) (simp add: ac_simps)
  have "half_even (k * 2 ^ m * d) (d * 2 ^ ?e) = k * 2 ^ (m - ?e)"
    unfolding eq by (rule half_even_exact) (simp add: assms(1))
  then show ?thesis
    using assms(1) split [symmetric] by (simp add: round_double_def Let_def)
qed

lemma double_of_u64_exact: "unat x < 2 ^ 53 \<Longrightarrow> double_of_u64 x = unat x"
  using round_double_exact [of 1 "unat x" 0] by (simp add: double_of_u64_def)

lemma double_div_exact: "0 < b \<Longrightarrow> k < 2 ^ 53 \<Longrightarrow> double_div (k * b) b = k * 2 ^ 117"
  using round_double_exact [of b k 117] by (simp add: double_div_def ac_simps)

section \<open>Printing whole numbers as doubles\<close>

lemma strip_zeros_replicate [simp]: "strip_zeros (replicate j CHR ''0'') = []"
  by (simp add: strip_zeros_def dropWhile_replicate)

lemma format_g_whole:
  assumes "0 < den" "k < 10 ^ 6"
  shows "format_g (k * den) den = dec k"
proof (cases "k = 0")
  case True
  then show ?thesis by (simp add: format_g_def dec.simps digit_char_0)
next
  case False
  let ?l = "length (dec k)"
  have l: "0 < ?l" "?l \<le> 6"
    using dec_length [OF assms(2)] by simp_all
  have X: "decimal_exponent (k * den) den = int ?l - 1"
    using assms(1) False by (simp add: decimal_exponent_def)
  have n: "nat (6 - int ?l) = 6 - ?l" "nat (int ?l - 6) = 0" "Suc (nat (int ?l - 1)) = ?l"
    using l by linarith+
  have "half_even (k * den * 10 ^ (6 - ?l)) den = k * 10 ^ (6 - ?l)"
    using half_even_exact [of den "k * 10 ^ (6 - ?l)"] assms(1) by (simp add: ac_simps)
  moreover have "k * 10 ^ (6 - ?l) \<noteq> 1000000"
  proof
    assume *: "k * 10 ^ (6 - ?l) = 1000000"
    then have "length (dec (k * 10 ^ (6 - ?l))) = length (dec (1 * 10 ^ 6))"
      by simp
    then show False
      using l False by (subst (asm) (1 2) dec_shift) (simp_all add: dec.simps [of 1])
  qed
  ultimately have "six_digits (k * den) den = (k * 10 ^ (6 - ?l), int ?l - 1)"
    by (simp add: six_digits_def X n)
  moreover have "dec (k * 10 ^ (6 - ?l)) = dec k @ replicate (6 - ?l) CHR ''0''"
    using False by (simp add: dec_shift)
  ultimately show ?thesis
    using l False assms(1) by (simp add: format_g_def with_point_def n)
qed

end
