(* ===== verification/Metrics_Server.thy ===== *)
theory Metrics_Server
  imports Session Decimal
begin

text \<open>
  \<^verbatim>\<open>src/controller/MetricsServer.cpp\<close>: the endpoint that answers every connection with the counters of the
  \<^verbatim>\<open>MetricsTracker\<close> as text in an HTTP response. The state of the server is whether the object exists, whether its acceptor
  is open, whether an accept is outstanding, and the sessions it has started. The completion of an accept is a
  closure over the server object, so it is an error when it runs after the object is gone.
\<close>

section \<open>Operations\<close>

record MetricsSession =
  scrape_open :: bool
  response_str :: string
  scrape_writing :: bool

record MetricsServer =
  server_alive :: bool
  acceptor_open :: bool
  server_accepting :: bool
  scrapes :: "MetricsSession list"

definition nl :: string where
  "nl = [CHR 0x0A]"

definition crlf :: string where
  "crlf = [CHR 0x0D, CHR 0x0A]"

text \<open>\<^verbatim>\<open>avg_rtt\<close>, in units of \<open>2\<close> to the \<open>-117\<close>.\<close>

definition avg_rtt :: "MetricsTracker \<Rightarrow> nat" where
  "avg_rtt t =
     (if 0 < rtt_samples t then double_div (double_of_u64 (total_rtt_ms t)) (double_of_u64 (rtt_samples t)) else 0)"

definition metrics_body :: "MetricsTracker \<Rightarrow> string" where
  "metrics_body t =
     ''# HELP stradvision_active_connections Number of active agents connected'' @ nl @
     ''# TYPE stradvision_active_connections gauge'' @ nl @
     ''stradvision_active_connections '' @ dec_int (sint (active_connections t)) @ nl @ nl @
     ''# HELP stradvision_command_failures_total Total command failures (NACK or Timeout)'' @ nl @
     ''# TYPE stradvision_command_failures_total counter'' @ nl @
     ''stradvision_command_failures_total '' @ dec (unat (command_failures t)) @ nl @ nl @
     ''# HELP stradvision_avg_rtt_ms Average Round Trip Time in ms'' @ nl @
     ''# TYPE stradvision_avg_rtt_ms gauge'' @ nl @
     ''stradvision_avg_rtt_ms '' @ format_double (avg_rtt t) @ nl"

definition metrics_response :: "string \<Rightarrow> string" where
  "metrics_response body =
     ''HTTP/1.1 200 OK'' @ crlf @
     ''Content-Type: text/plain; version=0.0.4'' @ crlf @
     ''Content-Length: '' @ dec (length body) @ crlf @
     ''Connection: close'' @ crlf @ crlf @ body"

text \<open>\<^verbatim>\<open>MetricsSession::start\<close> and the completion of its write, which closes the socket whatever the outcome.\<close>

definition scrape_start :: "MetricsTracker \<Rightarrow> MetricsSession \<Rightarrow> MetricsSession" where
  "scrape_start t s = s\<lparr>response_str := metrics_response (metrics_body t), scrape_writing := True\<rparr>"

definition scrape_written :: "error_code \<Rightarrow> MetricsSession \<Rightarrow> MetricsSession" where
  "scrape_written ec s = s\<lparr>scrape_writing := False, scrape_open := False\<rparr>"

definition new_MetricsSession :: MetricsSession where
  "new_MetricsSession = \<lparr>scrape_open = True, response_str = '''', scrape_writing = False\<rparr>"

definition metrics_doAccept :: "MetricsServer \<Rightarrow> MetricsServer" where
  "metrics_doAccept v = (if \<not> acceptor_open v then v else v\<lparr>server_accepting := True\<rparr>)"

definition new_MetricsServer :: MetricsServer where
  "new_MetricsServer =
     metrics_doAccept \<lparr>server_alive = True, acceptor_open = True, server_accepting = False, scrapes = []\<rparr>"

text \<open>
  The destructor closes the acceptor; an outstanding accept is thereby cancelled, and its completion, with
  \<^verbatim>\<open>operation_aborted\<close>, is still to come.
\<close>

definition destroy_MetricsServer :: "MetricsServer \<Rightarrow> MetricsServer" where
  "destroy_MetricsServer v = v\<lparr>acceptor_open := False, server_alive := False\<rparr>"

definition metrics_accept_done :: "MetricsTracker \<Rightarrow> error_code \<Rightarrow> MetricsServer \<Rightarrow> exn + MetricsServer" where
  "metrics_accept_done t ec v =
     (let v = v\<lparr>server_accepting := False\<rparr>
      in if \<not> server_alive v then Inl use_after_free
         else Inr (metrics_doAccept
           (if ec = success then v\<lparr>scrapes := scrapes v @ [scrape_start t new_MetricsSession]\<rparr> else v)))"

section \<open>Reading a response\<close>

text \<open>What a client does: split the head from the body at the first empty line, take the length from its header, and look up a metric
  by name among the lines of the body.\<close>

fun split_head :: "string \<Rightarrow> (string \<times> string) option" where
  "split_head [] = None"
| "split_head (c # s) =
     (if take 4 (c # s) = crlf @ crlf then Some ([], drop 4 (c # s))
      else map_option (\<lambda>(h, b). (c # h, b)) (split_head s))"

fun lines_of :: "string \<Rightarrow> string list" where
  "lines_of [] = [[]]"
| "lines_of (c # s) =
     (if c = CHR 0x0A then [] # lines_of s
      else case lines_of s of [] \<Rightarrow> [[c]] | l # ls \<Rightarrow> (c # l) # ls)"

definition field_of :: "string \<Rightarrow> string \<Rightarrow> string option" where
  "field_of key text =
     map_option (drop (length key)) (find (\<lambda>l. take (length key) l = key) (lines_of text))"

section \<open>Lemmas\<close>

lemma split_head_skip:
  assumes "CHR 0x0D \<notin> set s"
  shows "split_head (s @ rest) = map_option (\<lambda>(h, b). (s @ h, b)) (split_head rest)"
  using assms
proof (induction s)
  case Nil
  then show ?case by (cases "split_head rest") auto
next
  case (Cons c s)
  then show ?case by (cases "split_head rest") (auto simp: crlf_def)
qed

lemma lines_of_line:
  assumes "CHR 0x0A \<notin> set l"
  shows "lines_of (l @ CHR 0x0A # s) = l # lines_of s"
  using assms by (induction l) auto

lemma lines_of_last: "CHR 0x0A \<notin> set l \<Longrightarrow> lines_of l = [l]"
  by (induction l) auto

lemma not_in_append: "c \<notin> set s \<Longrightarrow> c \<notin> set s' \<Longrightarrow> c \<notin> set (s @ s')"
  by simp

lemma nl_not_in_number [simp]: "CHR 0x0A \<notin> set (dec n)" "CHR 0x0D \<notin> set (dec n)" "CHR 0x0A \<notin> set (dec_int i)"
  by (simp_all add: dec_not_in dec_int_not_in)

lemma set_strip_zeros: "c \<in> set (strip_zeros s) \<Longrightarrow> c \<in> set s"
  using set_dropWhileD [of c "\<lambda>c. c = CHR ''0''" "rev s"] by (simp add: strip_zeros_def)

lemma nl_not_in_point: "CHR 0x0A \<notin> set i \<Longrightarrow> CHR 0x0A \<notin> set f \<Longrightarrow> CHR 0x0A \<notin> set (with_point i (strip_zeros f))"
  by (auto simp: with_point_def dest: set_strip_zeros)

lemma nl_not_in_format [simp]: "CHR 0x0A \<notin> set (format_double u)"
proof -
  have t: "CHR 0x0A \<notin> set (take k (dec d))" "CHR 0x0A \<notin> set (drop k (dec d))" for k d
    using nl_not_in_number(1) by (blast dest: in_set_takeD in_set_dropD)+
  have r: "CHR 0x0A \<notin> set (replicate k CHR ''0'' @ dec d)" for k d
    by simp
  have e: "CHR 0x0A \<notin> set (exponent_text X)" for X
    by (simp add: exponent_text_def)
  show ?thesis
    unfolding format_double_def format_g_def
    by (auto simp: Let_def e split: prod.split dest: nl_not_in_point [OF t(1,2), THEN notE] nl_not_in_point [OF _ r, THEN notE, rotated])
qed

text \<open>The lines of the body.\<close>

lemma metrics_lines:
  "lines_of (metrics_body t) =
     [''# HELP stradvision_active_connections Number of active agents connected'',
      ''# TYPE stradvision_active_connections gauge'',
      ''stradvision_active_connections '' @ dec_int (sint (active_connections t)), [],
      ''# HELP stradvision_command_failures_total Total command failures (NACK or Timeout)'',
      ''# TYPE stradvision_command_failures_total counter'',
      ''stradvision_command_failures_total '' @ dec (unat (command_failures t)), [],
      ''# HELP stradvision_avg_rtt_ms Average Round Trip Time in ms'',
      ''# TYPE stradvision_avg_rtt_ms gauge'',
      ''stradvision_avg_rtt_ms '' @ format_double (avg_rtt t), []]"
  by (simp add: metrics_body_def nl_def lines_of_line)

lemma metrics_fields:
  "field_of ''stradvision_active_connections '' (metrics_body t) = Some (dec_int (sint (active_connections t)))"
  "field_of ''stradvision_command_failures_total '' (metrics_body t) = Some (dec (unat (command_failures t)))"
  "field_of ''stradvision_avg_rtt_ms '' (metrics_body t) = Some (format_double (avg_rtt t))"
  by (simp_all add: field_of_def metrics_lines)

lemma response_head:
  "split_head (metrics_response b) =
     Some (''HTTP/1.1 200 OK'' @ crlf @ ''Content-Type: text/plain; version=0.0.4'' @ crlf @
       ''Content-Length: '' @ dec (length b) @ crlf @ ''Connection: close'', b)"
  by (simp add: metrics_response_def crlf_def split_head_skip)

lemma response_length:
  "field_of ''Content-Length: '' (''HTTP/1.1 200 OK'' @ crlf @ ''Content-Type: text/plain; version=0.0.4'' @ crlf @
     ''Content-Length: '' @ dec n @ crlf @ ''Connection: close'') = Some (dec n @ [CHR 0x0D])"
proof -
  have "lines_of (''Content-Length: '' @ (dec n @ [CHR 0x0D]) @ CHR 0x0A # ''Connection: close'') =
      (''Content-Length: '' @ (dec n @ [CHR 0x0D])) # lines_of ''Connection: close''"
    using lines_of_line [of "''Content-Length: '' @ (dec n @ [CHR 0x0D])" "''Connection: close''"] by simp
  then show ?thesis
    by (simp add: field_of_def crlf_def)
qed

lemma read_number: "undec (takeWhile is_digit (dec n @ [CHR 0x0D])) = n"
  by (simp add: dec_digits takeWhile_tail)

section \<open>Properties\<close>

text \<open>C37: a scrape reads back the counters. The response splits at its first empty line into a head and the body, the length the head
  announces is that of the body, and the numbers under the three metric names are the connection counter (a negative one too), the
  failure counter and the average.\<close>

theorem scrape_reads_counters:
  "\<exists>h len act fails.
     split_head (metrics_response (metrics_body t)) = Some (h, metrics_body t) \<and>
     field_of ''Content-Length: '' h = Some len \<and> undec (takeWhile is_digit len) = length (metrics_body t) \<and>
     field_of ''stradvision_active_connections '' (metrics_body t) = Some act \<and> stoi act = Inr (active_connections t) \<and>
     field_of ''stradvision_command_failures_total '' (metrics_body t) = Some fails \<and> stoul fails = Inr (command_failures t) \<and>
     field_of ''stradvision_avg_rtt_ms '' (metrics_body t) = Some (format_double (avg_rtt t))"
proof -
  have "stoi (dec_int (sint (active_connections t))) = Inr (active_connections t)"
    using sint_ge [of "active_connections t"] sint_lt [of "active_connections t"] by (simp add: stoi_dec_int)
  moreover have "stoul (dec (unat (command_failures t))) = Inr (command_failures t)"
    using unsigned_less [of "command_failures t", where ?'a = nat] by (simp add: stoul_dec)
  ultimately show ?thesis
    using response_head response_length read_number metrics_fields by blast
qed

text \<open>An average round trip of a whole number of milliseconds below a million is printed as that number, without rounding, point or
  exponent.\<close>

lemma whole_average_printed_exactly:
  assumes "rtt_samples t \<noteq> 0" "unat (total_rtt_ms t) = k * unat (rtt_samples t)" "k < 10 ^ 6"
    and "unat (total_rtt_ms t) < 2 ^ 53" "unat (rtt_samples t) < 2 ^ 53"
  shows "field_of ''stradvision_avg_rtt_ms '' (metrics_body t) = Some (dec k)"
proof -
  have pos: "0 < unat (rtt_samples t)" "0 < rtt_samples t"
    using assms(1) by (simp_all add: unat_gt_0 word_greater_zero_iff)
  then have "avg_rtt t = k * 2 ^ 117"
    using assms(2-5) double_div_exact [of "unat (rtt_samples t)" k] by (simp add: avg_rtt_def double_of_u64_exact)
  then show ?thesis
    using format_g_whole [of "2 ^ 117" k] assms(3) by (simp add: metrics_fields format_double_def)
qed

end
