(* ===== verification/Float32.thy ===== *)
theory Float32
  imports Prelude
begin

text \<open>
  The IEEE 754 binary32 arithmetic the state store and the policies use, on bit patterns: addition,
  division, conversion from an unsigned integer and the order, with round to nearest, ties to even.
  Magnitudes are exact natural numbers in units of \<open>2\<close> to the \<open>-149\<close>, the smallest subnormal.
  Every NaN a computation makes is the quiet NaN \<^verbatim>\<open>0x7FC00000\<close>.
\<close>

section \<open>Operations\<close>

definition f32_negative :: "f32 \<Rightarrow> bool" where
  "f32_negative x \<longleftrightarrow> 2 ^ 31 \<le> unat x"

text \<open>The bits without the sign.\<close>

definition f32_abs_bits :: "f32 \<Rightarrow> nat" where
  "f32_abs_bits x = unat x mod 2 ^ 31"

definition f32_inf_bits :: nat where
  "f32_inf_bits = 255 * 2 ^ 23"

definition f32_is_nan :: "f32 \<Rightarrow> bool" where
  "f32_is_nan x \<longleftrightarrow> f32_inf_bits < f32_abs_bits x"

definition f32_is_inf :: "f32 \<Rightarrow> bool" where
  "f32_is_inf x \<longleftrightarrow> f32_abs_bits x = f32_inf_bits"

definition f32_nan :: f32 where
  "f32_nan = 0x7FC00000"

text \<open>The magnitude of a bit pattern; the pattern of infinity gets the next value after the largest finite one.\<close>

definition magnitude :: "nat \<Rightarrow> nat" where
  "magnitude b =
     (let E = b div 2 ^ 23; F = b mod 2 ^ 23
      in if E = 0 then F else (2 ^ 23 + F) * 2 ^ (E - 1))"

definition f32_value :: "f32 \<Rightarrow> int" where
  "f32_value x = (if f32_negative x then - int (magnitude (f32_abs_bits x)) else int (magnitude (f32_abs_bits x)))"

text \<open>How far a magnitude has to be shifted down to fit 24 bits.\<close>

fun excess :: "nat \<Rightarrow> nat" where
  "excess k = (if k < 2 ^ 24 then 0 else Suc (excess (k div 2)))"

declare excess.simps [simp del]

text \<open>The bit pattern nearest to \<open>n / d\<close>, ties to even, too large values to infinity.\<close>

definition round_ratio :: "nat \<Rightarrow> nat \<Rightarrow> nat" where
  "round_ratio n d =
     (let e = excess (n div d);
          D = d * 2 ^ e;
          q = n div D;
          r = n mod D;
          q' = (if 2 * r > D \<or> 2 * r = D \<and> odd q then q + 1 else q)
      in min (e * 2 ^ 23 + q') f32_inf_bits)"

definition f32_pack :: "bool \<Rightarrow> nat \<Rightarrow> f32" where
  "f32_pack neg b = word_of_nat (if neg then 2 ^ 31 + b else b)"

definition f32_add :: "f32 \<Rightarrow> f32 \<Rightarrow> f32" where
  "f32_add x y =
     (if f32_is_nan x \<or> f32_is_nan y then f32_nan
      else if f32_is_inf x \<and> f32_is_inf y then (if f32_negative x = f32_negative y then x else f32_nan)
      else if f32_is_inf x then x
      else if f32_is_inf y then y
      else let s = f32_value x + f32_value y
           in if s = 0 then f32_pack (f32_negative x \<and> f32_negative y) 0
              else f32_pack (s < 0) (round_ratio (nat \<bar>s\<bar>) 1))"

definition f32_div :: "f32 \<Rightarrow> f32 \<Rightarrow> f32" where
  "f32_div x y =
     (let neg = (f32_negative x \<noteq> f32_negative y);
          a = magnitude (f32_abs_bits x);
          b = magnitude (f32_abs_bits y)
      in if f32_is_nan x \<or> f32_is_nan y then f32_nan
         else if f32_is_inf x then (if f32_is_inf y then f32_nan else f32_pack neg f32_inf_bits)
         else if f32_is_inf y then f32_pack neg 0
         else if b = 0 then (if a = 0 then f32_nan else f32_pack neg f32_inf_bits)
         else f32_pack neg (round_ratio (a * 2 ^ 149) b))"

definition f32_of_nat :: "nat \<Rightarrow> f32" where
  "f32_of_nat n = f32_pack False (round_ratio (n * 2 ^ 149) 1)"

definition f32_less :: "f32 \<Rightarrow> f32 \<Rightarrow> bool" where
  "f32_less x y \<longleftrightarrow> \<not> f32_is_nan x \<and> \<not> f32_is_nan y \<and> f32_value x < f32_value y"

definition f32_le :: "f32 \<Rightarrow> f32 \<Rightarrow> bool" where
  "f32_le x y \<longleftrightarrow> \<not> f32_is_nan x \<and> \<not> f32_is_nan y \<and> f32_value x \<le> f32_value y"

section \<open>Rounding\<close>

lemma excess_small: "k < 2 ^ 24 \<Longrightarrow> excess k = 0"
  by (simp add: excess.simps)

lemma excess_upper: "k < 2 ^ (excess k + 24)"
proof (induction k rule: excess.induct)
  case (1 k)
  show ?case
  proof (cases "k < 2 ^ 24")
    case False
    then have "k div 2 < 2 ^ (excess (k div 2) + 24)"
      using 1 by simp
    then have "k < 2 * 2 ^ (excess (k div 2) + 24)"
      by linarith
    moreover have "excess k = Suc (excess (k div 2))"
      using False by (subst excess.simps) simp
    ultimately show ?thesis
      by (simp only: power_Suc add_Suc)
  qed (simp add: excess_small)
qed

lemma excess_lower: "0 < excess k \<Longrightarrow> 2 ^ (excess k + 23) \<le> k"
proof (induction k rule: excess.induct)
  case (1 k)
  then have big: "\<not> k < 2 ^ 24"
    by (auto simp: excess_small)
  then have e: "excess k = Suc (excess (k div 2))"
    by (subst excess.simps) simp
  show ?case
  proof (cases "excess (k div 2) = 0")
    case True
    with big e show ?thesis by simp
  next
    case False
    then have "2 ^ (excess (k div 2) + 23) \<le> k div 2"
      using 1 big by simp
    then have "2 * 2 ^ (excess (k div 2) + 23) \<le> k"
      by linarith
    with e show ?thesis
      by (simp only: power_Suc add_Suc)
  qed
qed

text \<open>A bit pattern as a 24-bit significand and a shift, the form both directions of rounding work with.\<close>

lemma magnitude_split:
  obtains eb sb where "b = eb * 2 ^ 23 + sb" "magnitude b = sb * 2 ^ eb" "sb < 2 ^ 24" "eb = 0 \<or> 2 ^ 23 \<le> sb"
proof (cases "b div 2 ^ 23 = 0")
  case True
  then have "b < 2 ^ 23" by auto
  with that [of 0 b] show ?thesis
    by (simp add: magnitude_def Let_def)
next
  case False
  define E where "E = b div 2 ^ 23"
  have E: "0 < E" using False by (simp add: E_def)
  have b: "b = E * 2 ^ 23 + b mod 2 ^ 23"
    by (simp add: E_def)
  have "b = (E - 1) * 2 ^ 23 + (2 ^ 23 + b mod 2 ^ 23)"
    using b E by (cases E) simp_all
  moreover have "magnitude b = (2 ^ 23 + b mod 2 ^ 23) * 2 ^ (E - 1)"
    using E by (simp add: magnitude_def Let_def E_def)
  moreover have "2 ^ 23 + b mod 2 ^ 23 < (2 ^ 24 :: nat)"
    by (simp add: mod_less_divisor [THEN order_less_le_trans])
  ultimately show ?thesis
    using that [of "E - 1" "2 ^ 23 + b mod 2 ^ 23"] by simp
qed

lemma round_ratio_split:
  fixes n d :: nat
  assumes "0 < d"
  obtains e q q' where "round_ratio n d = min (e * 2 ^ 23 + q') f32_inf_bits" "q = n div (d * 2 ^ e)" "q \<le> q'" "q' \<le> q + 1"
    "n = q * (d * 2 ^ e) \<longrightarrow> q' = q" "q < 2 ^ 24" "e = 0 \<or> 2 ^ 23 \<le> q" "n div d < 2 ^ (e + 24)" "e = 0 \<or> 2 ^ (e + 23) \<le> n div d"
proof -
  define e where "e = excess (n div d)"
  define q where "q = n div (d * 2 ^ e)"
  define r where "r = n mod (d * 2 ^ e)"
  define q' where "q' = (if 2 * r > d * 2 ^ e \<or> 2 * r = d * 2 ^ e \<and> odd q then q + 1 else q)"
  have k: "n div d < 2 ^ (e + 24)" "e = 0 \<or> 2 ^ (e + 23) \<le> n div d"
    using excess_upper excess_lower by (auto simp: e_def)
  have qk: "q = n div d div 2 ^ e"
    by (simp add: q_def div_mult2_eq)
  have "q < 2 ^ 24"
    using k(1) by (simp add: qk div_less_iff_less_mult power_add mult.commute)
  moreover have "e = 0 \<or> 2 ^ 23 \<le> q"
    using k(2) by (auto simp: qk less_eq_div_iff_mult_less_eq power_add mult.commute)
  moreover have "n = q * (d * 2 ^ e) \<longrightarrow> q' = q"
  proof
    assume n: "n = q * (d * 2 ^ e)"
    have "r = 0" by (subst r_def, subst n) simp
    with assms show "q' = q" by (simp add: q'_def)
  qed
  moreover have "round_ratio n d = min (e * 2 ^ 23 + q') f32_inf_bits"
    unfolding round_ratio_def Let_def e_def [symmetric] q_def [symmetric] r_def [symmetric] q'_def [symmetric] ..
  moreover have "q \<le> q'" "q' \<le> q + 1"
    by (simp_all add: q'_def)
  ultimately show ?thesis
    using that [of e q' q] k q_def by blast
qed

text \<open>Rounding never passes a representable value, in either direction.\<close>

lemma round_ratio_ge:
  assumes "0 < d" "magnitude b * d \<le> n" "b \<le> f32_inf_bits"
  shows "b \<le> round_ratio n d"
proof -
  obtain eb sb where b: "b = eb * 2 ^ 23 + sb" "magnitude b = sb * 2 ^ eb" "sb < 2 ^ 24" "eb = 0 \<or> 2 ^ 23 \<le> sb"
    by (rule magnitude_split)
  obtain e q q' where r: "round_ratio n d = min (e * 2 ^ 23 + q') f32_inf_bits" "q = n div (d * 2 ^ e)" "q \<le> q'"
    "e = 0 \<or> 2 ^ 23 \<le> q" "n div d < 2 ^ (e + 24)"
    by (rule round_ratio_split [OF assms(1), of n])
  have k: "sb * 2 ^ eb \<le> n div d"
    using assms b(2) by (simp add: less_eq_div_iff_mult_less_eq)
  consider "eb = e" | "eb < e" | "e < eb" by linarith
  then have "b \<le> e * 2 ^ 23 + q"
  proof cases
    case 1
    then have "sb \<le> n div d div 2 ^ e"
      using k by (simp add: less_eq_div_iff_mult_less_eq)
    with 1 b(1) r(2) show ?thesis by (simp add: div_mult2_eq)
  next
    case 2
    then have "(eb + 1) * 2 ^ 23 \<le> e * (2 ^ 23 :: nat)"
      by (intro mult_right_mono) simp_all
    with 2 b(1,3) r(4) show ?thesis by auto
  next
    case 3
    then have "(2 ^ (e + 24) :: nat) \<le> 2 ^ 23 * 2 ^ eb"
      unfolding power_add [symmetric] by (intro power_increasing) simp_all
    also have "\<dots> \<le> sb * 2 ^ eb"
      using b(4) 3 by (intro mult_right_mono) auto
    finally show ?thesis using k r(5) by simp
  qed
  with r(1,3) assms(3) show ?thesis by simp
qed

lemma round_ratio_le:
  assumes "0 < d" "n \<le> magnitude b * d"
  shows "round_ratio n d \<le> b"
proof -
  obtain eb sb where b: "b = eb * 2 ^ 23 + sb" "magnitude b = sb * 2 ^ eb" "sb < 2 ^ 24" "eb = 0 \<or> 2 ^ 23 \<le> sb"
    by (rule magnitude_split)
  obtain e q q' where r: "round_ratio n d = min (e * 2 ^ 23 + q') f32_inf_bits" "q = n div (d * 2 ^ e)" "q' \<le> q + 1"
    "n = q * (d * 2 ^ e) \<longrightarrow> q' = q" "q < 2 ^ 24" "e = 0 \<or> 2 ^ (e + 23) \<le> n div d"
    by (rule round_ratio_split [OF assms(1), of n])
  have D: "0 < d * 2 ^ e" using assms(1) by simp
  consider "eb = e" | "eb < e" | "e < eb" by linarith
  then have "e * 2 ^ 23 + q' \<le> b"
  proof cases
    case 1
    have n: "n \<le> sb * (d * 2 ^ e)"
      using assms(2) b(2) 1 by (simp add: ac_simps)
    then have "n div (d * 2 ^ e) \<le> sb * (d * 2 ^ e) div (d * 2 ^ e)"
      by (rule div_le_mono)
    then have q: "q \<le> sb" using D r(2) by simp
    have "q' \<le> sb"
    proof (cases "q = sb")
      case True
      have "q * (d * 2 ^ e) \<le> n"
        using r(2) by simp
      with True n r(4) show ?thesis by simp
    next
      case False
      with q r(3) show ?thesis by simp
    qed
    with 1 b(1) show ?thesis by simp
  next
    case 2
    have "n div d \<le> sb * 2 ^ eb"
      using assms b(2) div_le_mono [OF assms(2), of d] by simp
    also have "\<dots> < 2 ^ 24 * 2 ^ eb"
      using b(3) by (intro mult_strict_right_mono) simp_all
    also have "\<dots> \<le> 2 ^ (e + 23)"
      unfolding power_add [symmetric] using 2 by (intro power_increasing) simp_all
    finally show ?thesis using r(6) 2 by simp
  next
    case 3
    then have "(e + 1) * 2 ^ 23 \<le> eb * (2 ^ 23 :: nat)"
      by (intro mult_right_mono) simp_all
    with 3 b(1,4) r(3,5) show ?thesis by auto
  qed
  with r(1) show ?thesis by simp
qed

text \<open>In particular a representable value is not changed.\<close>

lemma round_ratio_exact: "b \<le> f32_inf_bits \<Longrightarrow> 0 < d \<Longrightarrow> round_ratio (magnitude b * d) d = b"
  by (intro antisym round_ratio_ge round_ratio_le) simp_all

lemma round_ratio_inf: "round_ratio n d \<le> f32_inf_bits"
  by (simp add: round_ratio_def Let_def)

section \<open>Magnitudes\<close>

lemma magnitude_le_iff:
  assumes "a \<le> f32_inf_bits" "b \<le> f32_inf_bits"
  shows "magnitude a \<le> magnitude b \<longleftrightarrow> a \<le> b"
proof -
  have up: "x \<le> y" if "magnitude x \<le> magnitude y" "x \<le> f32_inf_bits" for x y
    using round_ratio_le [of 1 "magnitude x" y] round_ratio_exact [OF that(2), of 1] that(1) by simp
  show ?thesis
    using up [OF _ assms(1), of b] up [OF _ assms(2), of a] by (metis antisym linear)
qed

text \<open>Integers below \<open>2\<close> to the \<open>24\<close> are represented exactly, at every scale.\<close>

lemma magnitude_small: "s < 2 ^ 24 \<Longrightarrow> magnitude s = s"
proof (cases "s < 2 ^ 23")
  case False
  moreover assume "s < 2 ^ 24"
  ultimately have "s div 2 ^ 23 = 1" "s mod 2 ^ 23 = s - 2 ^ 23"
    by (auto simp: div_nat_eqI mod_if)
  with False show ?thesis by (simp add: magnitude_def)
qed (simp add: magnitude_def)

lemma scaled_representable:
  assumes "s < 2 ^ 24" "t < 253"
  shows "\<exists>b < f32_inf_bits. magnitude b = s * 2 ^ t"
  using assms
proof (induction t arbitrary: s)
  case 0
  then show ?case
    using magnitude_small by (intro exI [of _ s]) (auto simp: f32_inf_bits_def)
next
  case (Suc t)
  show ?case
  proof (cases "s < 2 ^ 23")
    case True
    then show ?thesis
      using Suc.IH [of "2 * s"] Suc.prems by (simp add: ac_simps)
  next
    case False
    define f where "f = s - 2 ^ 23"
    have s: "s = 2 ^ 23 + f" "f < 2 ^ 23"
      using False Suc.prems by (simp_all add: f_def)
    let ?b = "(t + 2) * 2 ^ 23 + f"
    have d: "?b div 2 ^ 23 = t + 2" "?b mod 2 ^ 23 = f"
      using s(2) by (simp_all only: div_mult_self3 mod_mult_self3) simp_all
    have "magnitude ?b = s * 2 ^ Suc t"
      unfolding magnitude_def Let_def d s(1) by simp
    moreover have "?b < 254 * 2 ^ 23 + 2 ^ 23"
      using s(2) Suc.prems(2) by (intro add_less_le_mono add_le_less_mono mult_le_mono1) simp_all
    ultimately show ?thesis
      by (intro exI [of _ ?b]) (simp add: f32_inf_bits_def)
  qed
qed

lemma f32_pack_simps [simp]:
  assumes "b \<le> f32_inf_bits"
  shows "f32_negative (f32_pack neg b) = neg" "f32_abs_bits (f32_pack neg b) = b"
  using assms by (auto simp: f32_pack_def f32_negative_def f32_abs_bits_def f32_inf_bits_def unat_of_nat)

lemma f32_pack_value:
  assumes "b \<le> f32_inf_bits"
  shows "f32_value (f32_pack False b) = int (magnitude b)" "\<not> f32_is_nan (f32_pack False b)"
  using assms by (simp_all add: f32_value_def f32_is_nan_def)

section \<open>Arithmetic on non-negative numbers\<close>

text \<open>\<open>x\<close> is a number between zero (of either sign) and the finite value of magnitude \<open>M\<close>.\<close>

definition f32_within :: "nat \<Rightarrow> f32 \<Rightarrow> bool" where
  "f32_within M x \<longleftrightarrow> \<not> f32_is_nan x \<and> 0 \<le> f32_value x \<and> f32_value x \<le> int M"

definition finite_magnitude :: "nat \<Rightarrow> bool" where
  "finite_magnitude M \<longleftrightarrow> (\<exists>b < f32_inf_bits. magnitude b = M)"

lemma within_not_inf:
  assumes "f32_within M x" "finite_magnitude M"
  shows "\<not> f32_is_inf x"
proof
  assume inf: "f32_is_inf x"
  obtain b where b: "b < f32_inf_bits" "magnitude b = M"
    using assms(2) by (auto simp: finite_magnitude_def)
  have "int (magnitude f32_inf_bits) \<le> int M"
    using assms(1) inf by (auto simp: f32_within_def f32_is_inf_def f32_value_def split: if_splits)
  with b magnitude_le_iff [of f32_inf_bits b] show False by simp
qed

lemma add_within:
  assumes "f32_within M x" "f32_within N y" "finite_magnitude M" "finite_magnitude N" "finite_magnitude (M + N)"
  shows "f32_within (M + N) (f32_add x y)"
proof -
  let ?s = "f32_value x + f32_value y"
  obtain b where b: "b < f32_inf_bits" "magnitude b = M + N"
    using assms(5) by (auto simp: finite_magnitude_def)
  have s: "0 \<le> ?s" "?s \<le> int (M + N)"
    using assms by (simp_all add: f32_within_def)
  have add: "f32_add x y = (if ?s = 0 then f32_pack (f32_negative x \<and> f32_negative y) 0
      else f32_pack False (round_ratio (nat ?s) 1))"
    using assms within_not_inf [OF assms(1,3)] within_not_inf [OF assms(2,4)] s(1)
    by (simp add: f32_add_def f32_within_def Let_def)
  have "round_ratio (nat ?s) 1 \<le> b"
    using s b(2) by (intro round_ratio_le) simp_all
  then have "magnitude (round_ratio (nat ?s) 1) \<le> M + N" "round_ratio (nat ?s) 1 \<le> f32_inf_bits"
    using magnitude_le_iff [of "round_ratio (nat ?s) 1" b] b by simp_all
  then show ?thesis
    unfolding add by (simp add: f32_within_def f32_pack_value) (simp add: f32_value_def f32_is_nan_def magnitude_def)
qed

lemma of_nat_value:
  assumes "n < 2 ^ 24"
  shows "f32_value (f32_of_nat n) = int (n * 2 ^ 149)" "\<not> f32_is_nan (f32_of_nat n)" "\<not> f32_is_inf (f32_of_nat n)"
    "magnitude (f32_abs_bits (f32_of_nat n)) = n * 2 ^ 149" "\<not> f32_negative (f32_of_nat n)"
proof -
  obtain b where b: "b < f32_inf_bits" "magnitude b = n * 2 ^ 149"
    using scaled_representable [OF assms, of 149] by auto
  then have "f32_of_nat n = f32_pack False b"
    using round_ratio_exact [of b 1] by (simp add: f32_of_nat_def)
  with b show "f32_value (f32_of_nat n) = int (n * 2 ^ 149)" "\<not> f32_is_nan (f32_of_nat n)" "\<not> f32_is_inf (f32_of_nat n)"
    "magnitude (f32_abs_bits (f32_of_nat n)) = n * 2 ^ 149" "\<not> f32_negative (f32_of_nat n)"
    by (simp_all add: f32_pack_value f32_is_inf_def)
qed

lemma div_within:
  assumes "f32_within (M * n) x" "0 < n" "n < 2 ^ 24" "finite_magnitude M" "\<not> f32_is_inf x"
  shows "f32_within M (f32_div x (f32_of_nat n))"
proof -
  obtain b where b: "b < f32_inf_bits" "magnitude b = M"
    using assms(4) by (auto simp: finite_magnitude_def)
  let ?a = "magnitude (f32_abs_bits x)" and ?d = "n * 2 ^ 149"
  have a: "?a \<le> M * n" "f32_negative x \<Longrightarrow> ?a = 0"
    using assms(1) by (auto simp: f32_within_def f32_value_def simp del: of_nat_mult split: if_splits)
  have div: "f32_div x (f32_of_nat n) = f32_pack (f32_negative x) (round_ratio (?a * 2 ^ 149) ?d)"
    using assms of_nat_value [OF assms(3)] by (simp add: f32_div_def f32_within_def Let_def)
  have le: "round_ratio (?a * 2 ^ 149) ?d \<le> b"
    using a(1) b(2) assms(2) by (intro round_ratio_le) simp_all
  then have r: "magnitude (round_ratio (?a * 2 ^ 149) ?d) \<le> M" "round_ratio (?a * 2 ^ 149) ?d \<le> f32_inf_bits"
    using magnitude_le_iff [of "round_ratio (?a * 2 ^ 149) ?d" b] b by simp_all
  have "magnitude (round_ratio (?a * 2 ^ 149) ?d) = 0" if "f32_negative x"
    using a(2) [OF that] round_ratio_le [of ?d 0 0] assms(2) by (simp add: magnitude_def)
  with r show ?thesis
    unfolding div by (auto simp: f32_within_def f32_value_def f32_is_nan_def)
qed

text \<open>NaN is contagious and makes every comparison false.\<close>

lemma f32_nan_is_nan [simp]: "f32_is_nan f32_nan"
  by (simp add: f32_is_nan_def f32_nan_def f32_abs_bits_def f32_inf_bits_def)

lemma nan_add: "f32_is_nan x \<or> f32_is_nan y \<Longrightarrow> f32_is_nan (f32_add x y)"
  by (auto simp: f32_add_def)

lemma nan_div: "f32_is_nan x \<Longrightarrow> f32_is_nan (f32_div x y)"
  by (simp add: f32_div_def Let_def)

lemma nan_less: "f32_is_nan x \<Longrightarrow> \<not> f32_less x y \<and> \<not> f32_less y x"
  by (simp add: f32_less_def)

end
