(* ===== verification/State_Store.thy ===== *)
theory State_Store
  imports Float32 Payloads
begin

text \<open>
  \<^verbatim>\<open>src/controller/StateStore.cpp\<close>: the last reported state of every agent and the average of their loads,
  computed in single precision in the iteration order of the hash map.

  The locale \<open>state_store\<close> is the contract of \<^verbatim>\<open>IStateStore\<close>.
\<close>

section \<open>Operations\<close>

record StateStore =
  states :: "(u32 \<times> StatePayload) list"

definition new_StateStore :: StateStore where
  "new_StateStore = \<lparr>states = []\<rparr>"

text \<open>The \<^verbatim>\<open>timestamp\<close> argument is not used.\<close>

definition updateAgentState :: "u32 \<Rightarrow> StatePayload \<Rightarrow> u64 \<Rightarrow> StateStore \<Rightarrow> StateStore" where
  "updateAgentState aid st ts S = S\<lparr>states := AList.update aid st (states S)\<rparr>"

definition getAgentState :: "u32 \<Rightarrow> StateStore \<Rightarrow> StatePayload" where
  "getAgentState aid S =
     (case map_of (states S) aid of
        Some st \<Rightarrow> st
      | None \<Rightarrow> \<lparr>state_mode = 0, state_load = 0, state_temp = 0, state_last_rc = 0\<rparr>)"

definition getAggregateLoad :: "StateStore \<Rightarrow> f32" where
  "getAggregateLoad S =
     (if states S = [] then 0
      else f32_div (fold (\<lambda>(aid, st) acc. f32_add acc (state_load st)) (states S) 0) (f32_of_nat (length (states S))))"

section \<open>The contract of \<^verbatim>\<open>IStateStore\<close>\<close>

locale state_store =
  fixes upd :: "u32 \<Rightarrow> StatePayload \<Rightarrow> u64 \<Rightarrow> 's \<Rightarrow> 's"
    and get :: "u32 \<Rightarrow> 's \<Rightarrow> StatePayload"
    and known :: "'s \<Rightarrow> u32 set"
  assumes get_upd_same: "get a (upd a st ts S) = st"
    and get_upd_other: "a \<noteq> b \<Longrightarrow> get b (upd a st ts S) = get b S"
    and known_upd: "known (upd a st ts S) = insert a (known S)"
begin

text \<open>A history of reports: for every agent the last one counts, whatever the others sent meanwhile.\<close>

definition report_all :: "(u32 \<times> StatePayload \<times> u64) list \<Rightarrow> 's \<Rightarrow> 's" where
  "report_all rs S = fold (\<lambda>(a, st, ts). upd a st ts) rs S"

lemma last_report_wins:
  "get a (report_all rs S) =
     (case filter (\<lambda>r. fst r = a) (rev rs) of [] \<Rightarrow> get a S | r # _ \<Rightarrow> fst (snd r))"
proof (induction rs rule: rev_induct)
  case (snoc r rs)
  then show ?case
    by (cases "fst r = a") (auto simp: report_all_def case_prod_beta get_upd_same get_upd_other)
qed (simp add: report_all_def)

lemma known_report_all: "known (report_all rs S) = fst ` set rs \<union> known S"
  by (induction rs arbitrary: S) (auto simp: report_all_def known_upd)

end

interpretation store: state_store updateAgentState getAgentState "\<lambda>S. fst ` set (states S)"
  by unfold_locales (simp_all add: updateAgentState_def getAgentState_def update_conv' dom_update)

section \<open>Bounds of the average\<close>

text \<open>\<^verbatim>\<open>100.0f\<close>, the upper end of the agents' load distribution.\<close>

definition hundred :: f32 where
  "hundred = 0x42C80000"

lemma hundred_value: "f32_value hundred = int (100 * 2 ^ 149)" "\<not> f32_is_nan hundred"
  by (simp_all add: hundred_def f32_value_def f32_negative_def f32_abs_bits_def magnitude_def f32_is_nan_def f32_inf_bits_def)

lemma finite_multiple: "k * 100 < 2 ^ 24 \<Longrightarrow> finite_magnitude (k * (100 * 2 ^ 149))"
  using scaled_representable [of "k * 100" 149] by (simp add: finite_magnitude_def mult.assoc)

lemma load_sum_within:
  assumes "\<forall>st \<in> snd ` set xs. f32_within (100 * 2 ^ 149) (state_load st)" "f32_within (k * (100 * 2 ^ 149)) acc"
    "(k + length xs) * 100 < 2 ^ 24"
  shows "f32_within ((k + length xs) * (100 * 2 ^ 149)) (fold (\<lambda>(aid, st) acc. f32_add acc (state_load st)) xs acc)"
  using assms
proof (induction xs arbitrary: k acc)
  case (Cons x xs)
  obtain aid st where x: "x = (aid, st)" by force
  have fin: "finite_magnitude (k * (100 * 2 ^ 149))" "finite_magnitude (Suc k * (100 * 2 ^ 149))" "finite_magnitude (100 * 2 ^ 149)"
    using Cons.prems(3) finite_multiple [of k] finite_multiple [of "Suc k"] finite_multiple [of 1] by simp_all
  have "f32_within (k * (100 * 2 ^ 149) + 100 * 2 ^ 149) (f32_add acc (state_load st))"
    using Cons.prems x fin by (intro add_within) (simp_all add: add.commute)
  then have "f32_within (Suc k * (100 * 2 ^ 149)) (f32_add acc (state_load st))"
    by (simp add: add.commute)
  with Cons.IH [of "Suc k" "f32_add acc (state_load st)"] Cons.prems x show ?case by simp
qed simp

section \<open>Properties\<close>

text \<open>C24: the average of loads between 0 and 100 is between 0 and 100, in single precision, for every iteration order
  and up to 167772 agents.\<close>

theorem aggregate_load_bounded:
  assumes "\<forall>st \<in> snd ` set (states S). f32_le 0 (state_load st) \<and> f32_le (state_load st) hundred"
    and "length (states S) \<le> 167772"
  shows "f32_le 0 (getAggregateLoad S) \<and> f32_le (getAggregateLoad S) hundred"
proof (cases "states S = []")
  case True
  then show ?thesis
    by (simp add: getAggregateLoad_def f32_le_def hundred_value) (simp add: f32_value_def f32_is_nan_def f32_abs_bits_def magnitude_def f32_negative_def)
next
  case False
  have zero: "f32_value 0 = 0" "\<not> f32_is_nan 0"
    by (simp_all add: f32_value_def f32_is_nan_def f32_abs_bits_def magnitude_def f32_negative_def)
  let ?n = "length (states S)" and ?t = "fold (\<lambda>(aid, st) acc. f32_add acc (state_load st)) (states S) 0"
  have t: "f32_within (?n * (100 * 2 ^ 149)) ?t"
    using load_sum_within [of "states S" 0 0] assms zero hundred_value by (simp add: f32_within_def f32_le_def)
  have "\<not> f32_is_inf ?t"
    using within_not_inf [OF t] assms(2) finite_multiple [of ?n] by simp
  then have "f32_within (100 * 2 ^ 149) (f32_div ?t (f32_of_nat ?n))"
    using t False assms(2) finite_multiple [of 1] by (intro div_within) (simp_all add: mult.commute)
  then show ?thesis
    using False zero hundred_value by (simp add: getAggregateLoad_def f32_within_def f32_le_def)
qed

theorem aggregate_load_bounded_witness:
  "f32_le (getAggregateLoad \<lparr>states = [(7, \<lparr>state_mode = 0, state_load = 0x42C80000, state_temp = 0, state_last_rc = 0\<rparr>)]\<rparr>) hundred"
  using aggregate_load_bounded [of "\<lparr>states = [(7, \<lparr>state_mode = 0, state_load = 0x42C80000, state_temp = 0, state_last_rc = 0\<rparr>)]\<rparr>"]
    hundred_value
  by (simp add: f32_le_def flip: hundred_def)
    (simp add: f32_value_def f32_is_nan_def f32_abs_bits_def magnitude_def f32_negative_def)

text \<open>The average of one agent is its load.\<close>

lemma f32_add_zero:
  assumes "\<not> f32_is_nan x" "\<not> f32_is_inf x" "\<not> f32_negative x"
  shows "f32_add 0 x = x"
proof -
  let ?b = "f32_abs_bits x"
  have b: "?b < f32_inf_bits" "f32_pack False ?b = x"
    using assms by (simp_all add: f32_is_nan_def f32_is_inf_def f32_pack_def f32_negative_def f32_abs_bits_def)
  have z: "\<not> f32_is_nan 0" "\<not> f32_is_inf 0" "\<not> f32_negative 0" "f32_value 0 = 0"
    by (simp_all add: f32_is_nan_def f32_is_inf_def f32_negative_def f32_value_def f32_abs_bits_def f32_inf_bits_def magnitude_def)
  have "magnitude ?b = 0 \<longleftrightarrow> ?b = 0"
    using magnitude_le_iff [of ?b 0] b(1) by (simp add: magnitude_small)
  moreover have "round_ratio (magnitude ?b) 1 = ?b"
    using round_ratio_exact [of ?b 1] b(1) by simp
  ultimately show ?thesis
    using assms z b(2) by (auto simp: f32_add_def f32_value_def Let_def)
qed

lemma f32_div_one:
  assumes "\<not> f32_is_nan x" "\<not> f32_is_inf x" "\<not> f32_negative x"
  shows "f32_div x (f32_of_nat 1) = x"
proof -
  let ?b = "f32_abs_bits x"
  have b: "?b < f32_inf_bits" "f32_pack False ?b = x"
    using assms by (simp_all add: f32_is_nan_def f32_is_inf_def f32_pack_def f32_negative_def f32_abs_bits_def)
  then have "round_ratio (magnitude ?b * 2 ^ 149) (2 ^ 149) = ?b"
    using round_ratio_exact [of ?b "2 ^ 149"] by simp
  then show ?thesis
    using assms b(2) of_nat_value [of 1] by (simp add: f32_div_def Let_def)
qed

lemma single_report_average:
  assumes "\<not> f32_is_nan (state_load st)" "\<not> f32_is_inf (state_load st)" "\<not> f32_negative (state_load st)"
  shows "getAggregateLoad \<lparr>states = [(aid, st)]\<rparr> = state_load st"
  using assms f32_div_one [of "state_load st"] by (simp add: getAggregateLoad_def f32_add_zero)

text \<open>After any sequence of reports the stored state of an agent is its last one, or what was there before if it
  did not report; no report of another agent changes it.\<close>

lemma last_report_kept:
  "getAgentState a (fold (\<lambda>(a, st, ts). updateAgentState a st ts) rs S) =
     (case filter (\<lambda>r. fst r = a) (rev rs) of [] \<Rightarrow> getAgentState a S | r # _ \<Rightarrow> fst (snd r))"
  using store.last_report_wins [of a rs S] by (simp add: store.report_all_def)

lemma nan_sum:
  "f32_is_nan acc \<or> (\<exists>st \<in> snd ` set xs. f32_is_nan (state_load st)) \<Longrightarrow>
   f32_is_nan (fold (\<lambda>(aid, st) acc. f32_add acc (state_load st)) xs acc)"
  by (induction xs arbitrary: acc) (auto simp: nan_add)

lemma nan_aggregate:
  "\<exists>st \<in> snd ` set (states S). f32_is_nan (state_load st) \<Longrightarrow> f32_is_nan (getAggregateLoad S)"
  unfolding getAggregateLoad_def by (auto intro!: nan_div nan_sum)

end
