(* ===== verification/Policies.thy ===== *)
theory Policies
  imports Float32 Messages
begin

text \<open>
  The policies of the controller: \<^verbatim>\<open>include/controller/policy/Policy.hpp\<close>, the evaluation of a condition, and the
  translation of the JSON file in \<^verbatim>\<open>Controller::loadPolicies\<close>. The JSON library and the file system are
  parameters: a record of the accessors the code calls and a record of what the file system answers.
\<close>

record PolicyCondition =
  cond_metric :: string
  cond_op :: string
  cond_threshold :: f32

record PolicyAction =
  act_command :: MessageType
  act_mode :: u32

record Policy =
  policy_name :: string
  policy_condition :: PolicyCondition
  policy_action :: PolicyAction

text \<open>The condition as the health check evaluates it on the average load; the metric name is not consulted.\<close>

definition condition_met :: "f32 \<Rightarrow> Policy \<Rightarrow> bool" where
  "condition_met avg_load p =
     (if cond_op (policy_condition p) = ''>'' then f32_less (cond_threshold (policy_condition p)) avg_load
      else if cond_op (policy_condition p) = ''<'' then f32_less avg_load (cond_threshold (policy_condition p))
      else False)"

text \<open>
  The accessors of the JSON library: \<open>json_at\<close> is \<^verbatim>\<open>operator[]\<close>, \<open>json_items\<close> the iteration over an array, the others
  are the implicit conversions. Each may throw.
\<close>

record 'j json_api =
  json_at :: "'j \<Rightarrow> string \<Rightarrow> exn + 'j"
  json_items :: "'j \<Rightarrow> exn + 'j list"
  json_string :: "'j \<Rightarrow> exn + string"
  json_float :: "'j \<Rightarrow> exn + f32"
  json_u32 :: "'j \<Rightarrow> exn + u32"

text \<open>What the file system and the parser answer for \<^verbatim>\<open>configs/policy.json\<close>.\<close>

record 'j policy_file =
  file_exists :: "exn + bool"
  file_json :: "exn + 'j"
  file_time :: "exn + int"

text \<open>
  One element of the array. \<^verbatim>\<open>Policy policy;\<close> leaves the members uninitialised: \<open>junk\<close> is what \<^verbatim>\<open>action.command\<close> holds
  then, and it stays when the command string is not recognised.
\<close>

definition parse_policy :: "'j json_api \<Rightarrow> MessageType \<Rightarrow> 'j \<Rightarrow> exn + Policy" where
  "parse_policy J junk p =
     ebind (json_at J p ''name'') (\<lambda>x. ebind (json_string J x) (\<lambda>name.
     ebind (json_at J p ''condition'') (\<lambda>x. ebind (json_at J x ''metric'') (\<lambda>x. ebind (json_string J x) (\<lambda>metric.
     ebind (json_at J p ''condition'') (\<lambda>x. ebind (json_at J x ''operator'') (\<lambda>x. ebind (json_string J x) (\<lambda>oper.
     ebind (json_at J p ''condition'') (\<lambda>x. ebind (json_at J x ''threshold'') (\<lambda>x. ebind (json_float J x) (\<lambda>thr.
     ebind (json_at J p ''action'') (\<lambda>x. ebind (json_at J x ''command'') (\<lambda>x. ebind (json_string J x) (\<lambda>cmd_str.
     let command = (if cmd_str = ''CMD_SET_MODE'' then CMD_SET_MODE else junk) in
     ebind (json_at J p ''action'') (\<lambda>x. ebind (json_at J x ''mode'') (\<lambda>x. ebind (json_u32 J x) (\<lambda>md.
     Inr \<lparr>policy_name = name,
          policy_condition = \<lparr>cond_metric = metric, cond_op = oper, cond_threshold = thr\<rparr>,
          policy_action = \<lparr>act_command = command, act_mode = md\<rparr>\<rparr>)))))))))))))))))"

fun parse_policies :: "'j json_api \<Rightarrow> MessageType \<Rightarrow> 'j list \<Rightarrow> exn + Policy list" where
  "parse_policies J junk [] = Inr []"
| "parse_policies J junk (p # ps) =
     ebind (parse_policy J junk p) (\<lambda>pol. ebind (parse_policies J junk ps) (\<lambda>pols. Inr (pol # pols)))"

text \<open>The policies a file describes.\<close>

definition read_policies :: "'j json_api \<Rightarrow> MessageType \<Rightarrow> 'j policy_file \<Rightarrow> exn + Policy list" where
  "read_policies J junk f =
     ebind (file_json f) (\<lambda>data. ebind (json_at J data ''policies'') (\<lambda>x. ebind (json_items J x) (\<lambda>items.
     parse_policies J junk items)))"

lemma parse_policies_length: "parse_policies J junk ps = Inr pols \<Longrightarrow> length pols = length ps"
  by (induction ps arbitrary: pols) (auto simp: err_simps)

lemma nan_never_met: "f32_is_nan avg \<Longrightarrow> \<not> condition_met avg p"
  using nan_less by (simp add: condition_met_def)

end
