(* ===== verification/Fleet_Controller.thy ===== *)
theory Fleet_Controller
  imports Metrics_Server State_Store Policies
begin

text \<open>
  \<^verbatim>\<open>src/controller/Controller.cpp\<close>: registration of agents, dispatch of their messages, the two-second health
  check with its policies, and shutdown. Session objects are numbered; \<^verbatim>\<open>sessions_\<close> owns them and maps agent
  ids to numbers, connections point back to them weakly. Every handler of the event loop is one function
  on the controller's world; \<open>clk\<close> arguments are the successive readings of the steady clock in a loop.
\<close>

section \<open>State\<close>

record Controller = session_world +
  sess :: "nat \<rightharpoonup> AgentTcpSession"
  next_sess :: nat
  next_conn :: nat
  sessions :: "(u32 \<times> nat) list"
  ctl_store :: StateStore
  policies :: "Policy list"
  last_policy_file_time :: int
  ctl_counters :: "(MessageType \<times> u32) list"
  overload_mode :: bool
  ctl_shutting_down :: bool
  accept_pending :: bool
  timer_pending :: bool
  metrics :: MetricsServer

text \<open>Writing back a session object, and destroying it when its owner lets go.\<close>

definition put_session :: "nat \<Rightarrow> AgentTcpSession \<Rightarrow> Controller \<Rightarrow> Controller" where
  "put_session n s w = w\<lparr>sess := (sess w)(n \<mapsto> s)\<rparr>"

definition drop_session :: "nat \<Rightarrow> Controller \<Rightarrow> Controller" where
  "drop_session n w =
     (case sess w n of
        None \<Rightarrow> w
      | Some s \<Rightarrow> destroy_session s (w\<lparr>sess := (sess w)(n := None)\<rparr>))"

text \<open>\<^verbatim>\<open>sessions_.erase(aid)\<close>.\<close>

definition erase_session :: "u32 \<Rightarrow> Controller \<Rightarrow> Controller" where
  "erase_session aid w =
     (case map_of (sessions w) aid of
        None \<Rightarrow> w
      | Some n \<Rightarrow> drop_session n (w\<lparr>sessions := AList.delete aid (sessions w)\<rparr>))"

text \<open>\<^verbatim>\<open>sessions_[aid] = new_session\<close>: an older session of the same agent is destroyed.\<close>

definition assign_session :: "u32 \<Rightarrow> nat \<Rightarrow> Controller \<Rightarrow> Controller" where
  "assign_session aid n w =
     (let old = map_of (sessions w) aid;
          w = w\<lparr>sessions := AList.update aid n (sessions w)\<rparr>
      in case old of None \<Rightarrow> w | Some n' \<Rightarrow> drop_session n' w)"

text \<open>\<^verbatim>\<open>any_cast<weak_ptr>(conn->getContext()).lock()\<close>.\<close>

definition lock_context :: "nat \<Rightarrow> Controller \<Rightarrow> (nat \<times> AgentTcpSession) option" where
  "lock_context i w =
     Option.bind (Option.bind (conns w i) getContext) (\<lambda>n. map_option (Pair n) (sess w n))"

section \<open>Command bus\<close>

text \<open>The body of the loop, then the loop over the sessions in iteration order, with a clock reading each.\<close>

definition broadcast_one :: "IMessageParser \<Rightarrow> time_point \<Rightarrow> addr \<Rightarrow> nat \<Rightarrow> Controller \<Rightarrow> Controller" where
  "broadcast_one P now p n w =
     (case sess w n of
        None \<Rightarrow> w
      | Some s \<Rightarrow> if isHealthy now s w then session_send P p s w else w)"

fun broadcast_loop :: "IMessageParser \<Rightarrow> (nat \<Rightarrow> time_point) \<Rightarrow> addr \<Rightarrow> (u32 \<times> nat) list \<Rightarrow> Controller \<Rightarrow> Controller" where
  "broadcast_loop P clk p [] w = w"
| "broadcast_loop P clk p ((aid, n) # rest) w =
     broadcast_loop P (\<lambda>k. clk (k + 1)) p rest (broadcast_one P (clk 0) p n w)"

definition broadcastCommand :: "IMessageParser \<Rightarrow> (nat \<Rightarrow> time_point) \<Rightarrow> addr \<Rightarrow> Controller \<Rightarrow> Controller" where
  "broadcastCommand P clk p w = broadcast_loop P clk p (sessions w) w"

definition sendCommandTo :: "IMessageParser \<Rightarrow> time_point \<Rightarrow> u32 \<Rightarrow> addr \<Rightarrow> Controller \<Rightarrow> Controller" where
  "sendCommandTo P now aid p w =
     (case Option.bind (map_of (sessions w) aid) (sess w) of
        None \<Rightarrow> w
      | Some s \<Rightarrow> if isHealthy now s w then session_send P p s w else w)"

section \<open>Accepting connections\<close>

definition doAccept :: "Controller \<Rightarrow> Controller" where
  "doAccept w = (if ctl_shutting_down w then w else w\<lparr>accept_pending := True\<rparr>)"

definition add_active :: "i32 \<Rightarrow> Controller \<Rightarrow> Controller" where
  "add_active d w = upd_tracker (\<lambda>t. t\<lparr>active_connections := active_connections t + d\<rparr>) w"

text \<open>
  The completion of \<^verbatim>\<open>async_accept\<close>. The handler also builds a session object that nobody keeps: its message
  object is acquired and, at the end of the block, released again.
\<close>

definition accept_done :: "time_point \<Rightarrow> u64 \<Rightarrow> error_code \<Rightarrow> Controller \<Rightarrow> Controller" where
  "accept_done now now_ms ec w =
     (let w = w\<lparr>accept_pending := False\<rparr>;
          w = (if ec = success then
                 let i = next_conn w;
                     w = w\<lparr>conns := (conns w)(i \<mapsto> new_TcpComm True), next_conn := Suc i\<rparr>;
                     (session, w) = new_AgentTcpSession now now_ms i w;
                     w = add_active 1 w;
                     w = upd_conn i setMessageHandler w;
                     w = upd_conn i setErrorHandler w;
                     w = upd_conn i tcp_start w
                 in destroy_session session w
               else w)
      in doAccept w)"

definition ctl_error_handler :: "Controller ErrorHandler" where
  "ctl_error_handler i ec w =
     (let w = (case lock_context i w of
                 None \<Rightarrow> w
               | Some (n, s) \<Rightarrow> if getAgentId s \<noteq> 0 then erase_session (getAgentId s) w else w)
      in add_active (- 1) w)"

section \<open>Messages\<close>

definition register_agent :: "time_point \<Rightarrow> u64 \<Rightarrow> nat \<Rightarrow> u32 \<Rightarrow> Controller \<Rightarrow> Controller" where
  "register_agent now now_ms i aid w =
     (let (s, w) = new_AgentTcpSession now now_ms i w;
          s = setAgentId aid s;
          n = next_sess w;
          w = put_session n s (w\<lparr>next_sess := Suc n\<rparr>);
          w = assign_session aid n w
      in upd_conn i (setContext (Some n)) w)"

definition ctl_onMessage :: "time_point \<Rightarrow> u64 \<Rightarrow> Controller MessageHandler" where
  "ctl_onMessage now now_ms i m w =
     (case lock_context i w of
        None \<Rightarrow>
          if msg_type (header m) = HELLO then
            (case Hello_deserialize (payload m) Hello_fresh of
               Inl e \<Rightarrow> (Some e, w)
             | Inr pl \<Rightarrow> (None, register_agent now now_ms i (hello_agent_id pl) w))
          else (None, upd_conn i tcp_disconnect w)
      | Some (n, s) \<Rightarrow>
          if msg_type (header m) = HELLO then (None, w)
          else if msg_type (header m) = HEARTBEAT then (None, put_session n (updateHeartbeat now s) w)
          else if msg_type (header m) = STATE then
            (case State_deserialize (payload m) State_fresh of
               Inl e \<Rightarrow> (Some e, w)
             | Inr pl \<Rightarrow> (None, w\<lparr>ctl_store := updateAgentState (getAgentId s) pl (timestamp (header m)) (ctl_store w)\<rparr>))
          else if msg_type (header m) = ACK then
            (case Ack_deserialize (payload m) Ack_fresh of
               Inl e \<Rightarrow> (Some e, w)
             | Inr pl \<Rightarrow> (let (s, w) = handleAck now (ack_cmd_id pl) s w in (None, put_session n s w)))
          else if msg_type (header m) = NACK then
            (case Nack_deserialize (payload m) Nack_fresh of
               Inl e \<Rightarrow> (Some e, w)
             | Inr pl \<Rightarrow> (let (s, w) = handleAck now (nack_cmd_id pl) s w in (None, put_session n s w)))
          else (None, w))"

section \<open>Health check\<close>

text \<open>
  The first loop: unhealthy sessions are dropped, the commands of the others checked for timeouts. \<open>t0\<close> and \<open>t1\<close> are
  the clock readings of \<^verbatim>\<open>isHealthy\<close> and \<^verbatim>\<open>checkCommandTimeouts\<close>.
\<close>

definition health_one :: "IMessageParser \<Rightarrow> time_point \<Rightarrow> time_point \<Rightarrow> u32 \<Rightarrow> nat \<Rightarrow> Controller \<Rightarrow> Controller" where
  "health_one P t0 t1 aid n w =
     (case sess w n of
        None \<Rightarrow> w
      | Some s \<Rightarrow>
          if \<not> isHealthy t0 s w then
            (let (s, w) = session_disconnect s w;
                 w = put_session n s w;
                 w = add_active (- 1) w
             in erase_session aid w)
          else
            (let (s, w) = checkCommandTimeouts P t1 s w
             in put_session n s w))"

fun health_loop :: "IMessageParser \<Rightarrow> (nat \<Rightarrow> time_point) \<Rightarrow> (u32 \<times> nat) list \<Rightarrow> Controller \<Rightarrow> Controller" where
  "health_loop P clk [] w = w"
| "health_loop P clk ((aid, n) # rest) w =
     health_loop P (\<lambda>k. clk (k + 2)) rest (health_one P (clk 0) (clk 1) aid n w)"

definition getNextId :: "MessageType \<Rightarrow> Controller \<Rightarrow> u32 \<times> Controller" where
  "getNextId ty w =
     (let v = (case map_of (ctl_counters w) ty of None \<Rightarrow> 0 | Some v \<Rightarrow> v)
      in (v, w\<lparr>ctl_counters := AList.update ty (v + 1) (ctl_counters w)\<rparr>))"

text \<open>Commanding a mode to every healthy session; \<open>t0\<close> and \<open>t1\<close> are the readings of \<^verbatim>\<open>isHealthy\<close> and \<^verbatim>\<open>trackCommand\<close>.\<close>

definition command_one :: "IMessageParser \<Rightarrow> time_point \<Rightarrow> time_point \<Rightarrow> u32 \<Rightarrow> u32 \<Rightarrow> nat \<Rightarrow> Controller \<Rightarrow> Controller" where
  "command_one P t0 t1 mode hid n w =
     (case sess w n of
        None \<Rightarrow> w
      | Some s \<Rightarrow>
          if isHealthy t0 s w then
            (let (p, s, w) = getSetModeMsg mode hid s w;
                 s = trackCommand t1 p s w;
                 w = session_send P p s w
             in put_session n s w)
          else w)"

fun command_loop :: "IMessageParser \<Rightarrow> (nat \<Rightarrow> time_point) \<Rightarrow> u32 \<Rightarrow> u32 \<Rightarrow> (u32 \<times> nat) list \<Rightarrow> Controller \<Rightarrow> Controller" where
  "command_loop P clk mode hid [] w = w"
| "command_loop P clk mode hid ((aid, n) # rest) w =
     command_loop P (\<lambda>k. clk (k + 2)) mode hid rest (command_one P (clk 0) (clk 1) mode hid n w)"

definition apply_policy :: "IMessageParser \<Rightarrow> (nat \<Rightarrow> time_point) \<Rightarrow> f32 \<Rightarrow> Policy \<Rightarrow> Controller \<Rightarrow> Controller" where
  "apply_policy P clk avg_load pol w =
     (if condition_met avg_load pol then
        if act_command (policy_action pol) = CMD_SET_MODE then
          (let already_in_mode = (overload_mode w = (act_mode (policy_action pol) = 1))
           in if \<not> already_in_mode then
                (let w = w\<lparr>overload_mode := (act_mode (policy_action pol) = 1)\<rparr>;
                     (next_id, w) = getNextId CMD_SET_MODE w
                 in command_loop P clk (act_mode (policy_action pol)) next_id (sessions w) w)
              else w)
        else w
      else w)"

text \<open>The loop over the policies; \<open>clk j\<close> are the readings while the \<open>j\<close>-th policy is applied.\<close>

fun policy_loop :: "IMessageParser \<Rightarrow> (nat \<Rightarrow> nat \<Rightarrow> time_point) \<Rightarrow> f32 \<Rightarrow> Policy list \<Rightarrow> Controller \<Rightarrow> Controller" where
  "policy_loop P clk avg_load [] w = w"
| "policy_loop P clk avg_load (pol # pols) w =
     policy_loop P (\<lambda>j. clk (Suc j)) avg_load pols (apply_policy P (clk 0) avg_load pol w)"

definition startHealthCheck :: "Controller \<Rightarrow> Controller" where
  "startHealthCheck w = (if ctl_shutting_down w then w else w\<lparr>timer_pending := True\<rparr>)"

section \<open>Policy file\<close>

text \<open>
  \<^verbatim>\<open>loadPolicies\<close>: an exception anywhere is caught and logged. The policies are replaced only after the whole file has
  been translated; the file time is read last. Undefined behaviour of the JSON library is the error of the step.
\<close>

definition loadPolicies :: "'j json_api \<Rightarrow> MessageType \<Rightarrow> 'j policy_file \<Rightarrow> Controller \<Rightarrow> exn + Controller" where
  "loadPolicies J junk f w =
     (let catch_log = (\<lambda>e w. if is_exception e then Inr w else Inl e)
      in case file_exists f of
           Inl e \<Rightarrow> catch_log e w
         | Inr False \<Rightarrow> Inr w
         | Inr True \<Rightarrow>
             (case read_policies J junk f of
                Inl e \<Rightarrow> catch_log e w
              | Inr new_policies \<Rightarrow>
                  (let w = w\<lparr>policies := new_policies\<rparr>
                   in case file_time f of
                        Inl e \<Rightarrow> catch_log e w
                      | Inr t \<Rightarrow> Inr (w\<lparr>last_policy_file_time := t\<rparr>))))"

text \<open>\<^verbatim>\<open>checkPolicyUpdate\<close>: \<open>f\<close> is the file when it is looked at, \<open>g\<close> when it is loaded.\<close>

definition checkPolicyUpdate :: "'j json_api \<Rightarrow> MessageType \<Rightarrow> 'j policy_file \<Rightarrow> 'j policy_file \<Rightarrow> Controller \<Rightarrow> exn + Controller" where
  "checkPolicyUpdate J junk f g w =
     (case file_exists f of
        Inr True \<Rightarrow>
          (case file_time f of
             Inr current_time \<Rightarrow> if last_policy_file_time w < current_time then loadPolicies J junk g w else Inr w
           | Inl e \<Rightarrow> Inr w)
      | _ \<Rightarrow> Inr w)"

definition clearPolicies :: "Controller \<Rightarrow> Controller" where
  "clearPolicies w = w\<lparr>policies := []\<rparr>"

definition addPolicy :: "Policy \<Rightarrow> Controller \<Rightarrow> Controller" where
  "addPolicy p w = w\<lparr>policies := policies w @ [p]\<rparr>"

text \<open>\<^verbatim>\<open>getStore\<close> hands out a reference to the store: its holder may read it and write it back.\<close>

definition getStore :: "Controller \<Rightarrow> StateStore" where
  "getStore w = ctl_store w"

definition putStore :: "StateStore \<Rightarrow> Controller \<Rightarrow> Controller" where
  "putStore S w = w\<lparr>ctl_store := S\<rparr>"

text \<open>The part of the timer handler between the policy update and the next timer.\<close>

definition check_sessions :: "IMessageParser \<Rightarrow> (nat \<Rightarrow> time_point) \<Rightarrow> (nat \<Rightarrow> nat \<Rightarrow> time_point) \<Rightarrow> Controller \<Rightarrow> Controller" where
  "check_sessions P clk clk' w =
     (let w = health_loop P clk (sessions w) w;
          avg_load = getAggregateLoad (ctl_store w)
      in policy_loop P clk' avg_load (policies w) w)"

definition health_check_done ::
    "IMessageParser \<Rightarrow> 'j json_api \<Rightarrow> MessageType \<Rightarrow> 'j policy_file \<Rightarrow> 'j policy_file \<Rightarrow>
     (nat \<Rightarrow> time_point) \<Rightarrow> (nat \<Rightarrow> nat \<Rightarrow> time_point) \<Rightarrow> error_code \<Rightarrow> Controller \<Rightarrow> exn + Controller" where
  "health_check_done P J junk f g clk clk' ec w =
     (let w = w\<lparr>timer_pending := False\<rparr>
      in if ec = success
         then ebind (checkPolicyUpdate J junk f g w) (\<lambda>w. Inr (startHealthCheck (check_sessions P clk clk' w)))
         else Inr w)"

section \<open>Start and shutdown\<close>

definition new_Controller :: "'j json_api \<Rightarrow> MessageType \<Rightarrow> 'j policy_file \<Rightarrow> MessagePool \<Rightarrow> exn + Controller" where
  "new_Controller J junk f ms =
     ebind (loadPolicies J junk f
       \<lparr>conns = Map.empty, msgs = ms, tracker = new_MetricsTracker, sess = Map.empty, next_sess = 0, next_conn = 0,
        sessions = [], ctl_store = new_StateStore, policies = [], last_policy_file_time = 0, ctl_counters = [],
        overload_mode = False, ctl_shutting_down = False, accept_pending = False, timer_pending = False, metrics = new_MetricsServer\<rparr>)
     (\<lambda>w. Inr (startHealthCheck (doAccept w)))"

definition flush_one :: "IMessageParser \<Rightarrow> nat \<Rightarrow> Controller \<Rightarrow> Controller" where
  "flush_one P n w =
     (case sess w n of
        None \<Rightarrow> w
      | Some s \<Rightarrow> (let (s, w) = flushPendingCommands P s w in put_session n s w))"

fun flush_loop :: "IMessageParser \<Rightarrow> (u32 \<times> nat) list \<Rightarrow> Controller \<Rightarrow> Controller" where
  "flush_loop P [] w = w"
| "flush_loop P ((aid, n) # rest) w =
     flush_loop P rest (flush_one P n w)"

definition shutdownController :: "IMessageParser \<Rightarrow> Controller \<Rightarrow> Controller" where
  "shutdownController P w =
     (if ctl_shutting_down w then w
      else flush_loop P (sessions w) (w\<lparr>ctl_shutting_down := True, metrics := destroy_MetricsServer (metrics w)\<rparr>))"

definition ctl_signal_done :: "IMessageParser \<Rightarrow> error_code \<Rightarrow> Controller \<Rightarrow> Controller" where
  "ctl_signal_done P ec w = (if ec = success then shutdownController P w else w)"

end
