(* ===== verification/Fleet_Invariant.thy ===== *)
theory Fleet_Invariant
  imports Fleet_Controller
begin

text \<open>
  The registration invariant of the controller and the runs that keep it: \<^verbatim>\<open>sessions_\<close> and the session objects
  correspond one to one, every session and its connection point at each other, and every session has a
  message object of its own.
\<close>

section \<open>The invariant\<close>

text \<open>What a connection's context points to.\<close>

definition ctx :: "'a io_world_scheme \<Rightarrow> nat \<Rightarrow> nat option option" where
  "ctx w i = map_option user_context (conns w i)"

text \<open>The message objects the pending commands point to.\<close>

definition pending_msgs :: "AgentTcpSession \<Rightarrow> addr set" where
  "pending_msgs s = (\<lambda>x. pc_msg (snd x)) ` set (pending_cmds s)"

text \<open>The object of a session always is a mode command.\<close>

definition command_msg :: "Message option \<Rightarrow> bool" where
  "command_msg x \<longleftrightarrow> (\<exists>m. x = Some m \<and> msg_type (header m) = CMD_SET_MODE)"

definition session_ok :: "Controller \<Rightarrow> nat \<Rightarrow> AgentTcpSession \<Rightarrow> bool" where
  "session_ok w n s \<longleftrightarrow>
     n < next_sess w \<and> (\<exists>i. session_conn s = Some i \<and> ctx w i = Some (Some n)) \<and>
     msg_set_mode s \<in> live (msgs w) \<and> command_msg (heap (msgs w) (msg_set_mode s)) \<and> session_inv s \<and> pending_msgs s \<subseteq> {msg_set_mode s}"

definition registry_ok :: "Controller \<Rightarrow> bool" where
  "registry_ok w \<longleftrightarrow>
     distinct (map fst (sessions w)) \<and>
     (\<forall>aid n. (aid, n) \<in> set (sessions w) \<longleftrightarrow> (\<exists>s. sess w n = Some s \<and> session_id s = aid))"

definition separate_msgs :: "Controller \<Rightarrow> bool" where
  "separate_msgs w \<longleftrightarrow>
     (\<forall>n n' s s'. sess w n = Some s \<longrightarrow> sess w n' = Some s' \<longrightarrow> msg_set_mode s = msg_set_mode s' \<longrightarrow> n = n')"

definition contexts_ok :: "Controller \<Rightarrow> bool" where
  "contexts_ok w \<longleftrightarrow>
     (\<forall>i n. ctx w i = Some (Some n) \<longrightarrow> n < next_sess w \<and> (\<forall>s. sess w n = Some s \<longrightarrow> session_conn s = Some i)) \<and>
     (\<forall>i. next_conn w \<le> i \<longrightarrow> conns w i = None)"

definition reg_inv :: "Controller \<Rightarrow> bool" where
  "reg_inv w \<longleftrightarrow>
     registry_ok w \<and> (\<forall>n s. sess w n = Some s \<longrightarrow> session_ok w n s) \<and> separate_msgs w \<and> contexts_ok w \<and> pool_inv (msgs w)"

lemmas reg_parts = registry_ok_def separate_msgs_def contexts_ok_def

lemma reg_inv_parts:
  assumes "reg_inv w"
  shows "registry_ok w" "sess w n = Some s \<Longrightarrow> session_ok w n s" "separate_msgs w" "contexts_ok w" "pool_inv (msgs w)"
  using assms by (simp_all add: reg_inv_def)

text \<open>The invariant looks only at the registry, the contexts and the message pool.\<close>

lemma reg_inv_cong:
  assumes "sessions w' = sessions w" "sess w' = sess w" "next_sess w' = next_sess w" "next_conn w' = next_conn w"
    "ctx w' = ctx w" "msgs w' = msgs w"
  shows "reg_inv w' = reg_inv w"
proof -
  have dom: "conns w' i = None \<longleftrightarrow> conns w i = None" for i
    using fun_cong [OF assms(5), of i] by (cases "conns w i"; cases "conns w' i") (simp_all add: ctx_def)
  show ?thesis
    using assms by (simp add: reg_inv_def reg_parts session_ok_def dom)
qed

lemma ctx_upd_conn: "(\<And>c. conns w i = Some c \<Longrightarrow> user_context (f c) = user_context c) \<Longrightarrow> ctx (upd_conn i f w) = ctx w"
  by (cases "conns w i") (auto simp: ctx_def upd_conn_def fun_eq_iff)

lemma ctx_post_on [simp]: "ctx (post_on cn ts w) = ctx w"
  by (simp add: post_on_def ctx_upd_conn post_def split: option.split)

lemma upd_conn_more [simp]:
  "sessions (upd_conn i f w) = sessions w" "sess (upd_conn i f w) = sess w" "next_sess (upd_conn i f w) = next_sess w"
  "next_conn (upd_conn i f w) = next_conn w" "msgs (upd_conn i f v) = msgs v" "ctl_store (upd_conn i f w) = ctl_store w"
  "policies (upd_conn i f w) = policies w" "overload_mode (upd_conn i f w) = overload_mode w"
  "ctl_shutting_down (upd_conn i f w) = ctl_shutting_down w" "tracker (upd_conn i f v) = tracker v"
  by (simp_all add: upd_conn_def)

lemma post_on_more [simp]:
  "sessions (post_on cn ts w) = sessions w" "sess (post_on cn ts w) = sess w" "next_sess (post_on cn ts w) = next_sess w"
  "next_conn (post_on cn ts w) = next_conn w" "ctl_store (post_on cn ts w) = ctl_store w" "policies (post_on cn ts w) = policies w"
  "overload_mode (post_on cn ts w) = overload_mode w" "ctl_shutting_down (post_on cn ts w) = ctl_shutting_down w"
  by (simp_all add: post_on_def split: option.split)

lemma upd_tracker_more [simp]:
  "sessions (upd_tracker f w) = sessions w" "sess (upd_tracker f w) = sess w" "next_sess (upd_tracker f w) = next_sess w"
  "next_conn (upd_tracker f w) = next_conn w" "msgs (upd_tracker f v) = msgs v" "ctx (upd_tracker f v) = ctx v"
  "conns (upd_tracker f v) = conns v" "ctl_store (upd_tracker f w) = ctl_store w" "policies (upd_tracker f w) = policies w"
  "overload_mode (upd_tracker f w) = overload_mode w" "ctl_shutting_down (upd_tracker f w) = ctl_shutting_down w"
  "tracker (upd_tracker f v) = f (tracker v)"
  by (simp_all add: upd_tracker_def ctx_def fun_eq_iff)

lemma reg_inv_upd_conn: "(\<And>c. conns w i = Some c \<Longrightarrow> user_context (f c) = user_context c) \<Longrightarrow> reg_inv (upd_conn i f w) = reg_inv w"
  by (rule reg_inv_cong) (simp_all add: ctx_upd_conn)

lemma reg_inv_simps [simp]:
  "reg_inv (post_on cn ts w) = reg_inv w" "reg_inv (upd_tracker f w) = reg_inv w" "reg_inv (add_active d w) = reg_inv w"
  "reg_inv (add_failures k w) = reg_inv w" "reg_inv (doAccept w) = reg_inv w" "reg_inv (startHealthCheck w) = reg_inv w"
  "reg_inv (clearPolicies w) = reg_inv w" "reg_inv (addPolicy p w) = reg_inv w" "reg_inv (snd (getNextId ty w)) = reg_inv w"
  by (rule reg_inv_cong;
      simp add: add_active_def add_failures_def doAccept_def startHealthCheck_def clearPolicies_def addPolicy_def getNextId_def
        Let_def ctx_def fun_eq_iff)+

lemma reg_inv_fields [simp]:
  "reg_inv (w\<lparr>ctl_store := x1\<rparr>) = reg_inv w" "reg_inv (w\<lparr>policies := x2\<rparr>) = reg_inv w" "reg_inv (w\<lparr>overload_mode := x3\<rparr>) = reg_inv w"
  "reg_inv (w\<lparr>last_policy_file_time := x4\<rparr>) = reg_inv w" "reg_inv (w\<lparr>accept_pending := x5\<rparr>) = reg_inv w"
  "reg_inv (w\<lparr>timer_pending := x6\<rparr>) = reg_inv w" "reg_inv (w\<lparr>metrics := x7\<rparr>) = reg_inv w"
  "reg_inv (w\<lparr>ctl_shutting_down := x8\<rparr>) = reg_inv w" "reg_inv (w\<lparr>ctl_counters := x9\<rparr>) = reg_inv w"
  by (rule reg_inv_cong; simp add: ctx_def fun_eq_iff)+

section \<open>Updates of one session\<close>

text \<open>A session may change its heartbeat, its payload and its pending commands, as long as these use its message.\<close>

definition session_kept :: "AgentTcpSession \<Rightarrow> AgentTcpSession \<Rightarrow> bool" where
  "session_kept s s' \<longleftrightarrow>
     session_id s' = session_id s \<and> session_conn s' = session_conn s \<and> msg_set_mode s' = msg_set_mode s \<and>
     (session_inv s \<longrightarrow> session_inv s') \<and> pending_msgs s' \<subseteq> insert (msg_set_mode s) (pending_msgs s)"

lemma put_session_more [simp]:
  "sessions (put_session n s w) = sessions w" "sess (put_session n s w) = (sess w)(n \<mapsto> s)" "next_sess (put_session n s w) = next_sess w"
  "next_conn (put_session n s w) = next_conn w" "ctx (put_session n s w) = ctx w" "msgs (put_session n s w) = msgs w"
  "conns (put_session n s w) = conns w" "ctl_store (put_session n s w) = ctl_store w" "policies (put_session n s w) = policies w"
  "overload_mode (put_session n s w) = overload_mode w" "tracker (put_session n s w) = tracker w"
  "ctl_shutting_down (put_session n s w) = ctl_shutting_down w"
  by (simp_all add: put_session_def ctx_def fun_eq_iff)

lemma reg_inv_put:
  assumes "reg_inv w" "sess w n = Some s" "session_kept s s'"
  shows "reg_inv (put_session n s' w)"
proof -
  note k = assms(3) [unfolded session_kept_def]
  have "registry_ok (put_session n s' w)"
    using reg_inv_parts(1) [OF assms(1)] assms(2) k by (force simp: registry_ok_def)
  moreover have "separate_msgs (put_session n s' w)"
    using reg_inv_parts(3) [OF assms(1)] assms(2) k unfolding separate_msgs_def by (simp add: fun_upd_def) metis
  moreover have "contexts_ok (put_session n s' w)"
    using reg_inv_parts(4) [OF assms(1)] assms(2) k by (auto simp: contexts_ok_def)
  moreover have "session_ok (put_session n s' w) n' t" if "sess (put_session n s' w) n' = Some t" for n' t
    using that reg_inv_parts(2) [OF assms(1), of n'] assms(2) k
    by (auto simp: session_ok_def split: if_splits)
  ultimately show ?thesis
    using reg_inv_parts(5) [OF assms(1)] by (simp add: reg_inv_def)
qed

lemma advance_msg: "advance now pc = Some pc' \<Longrightarrow> pc_msg pc' = pc_msg pc"
  by (auto simp: advance_def split: if_splits)

lemma pending_msgs_simps:
  "pending_msgs (fst (handleAck now c s w)) \<subseteq> pending_msgs s"
  "pending_msgs (fst (checkCommandTimeouts P now s w)) \<subseteq> pending_msgs s"
  "pending_msgs (trackCommand now p s w) \<subseteq> insert p (pending_msgs s)"
proof -
  show "pending_msgs (fst (handleAck now c s w)) \<subseteq> pending_msgs s"
    by (auto simp: pending_msgs_def handleAck_def Let_def in_set_delete split: option.splits)
  show "pending_msgs (fst (checkCommandTimeouts P now s w)) \<subseteq> pending_msgs s"
  proof
    fix q assume "q \<in> pending_msgs (fst (checkCommandTimeouts P now s w))"
    then obtain k pc' where "(k, pc') \<in> set (advance_all now (pending_cmds s))" "pc_msg pc' = q"
      by (auto simp: pending_msgs_def checkCommandTimeouts_eq)
    then obtain pc where "(k, pc) \<in> set (pending_cmds s)" "pc_msg pc = q"
      using advance_msg by (auto simp: set_advance_all)
    then show "q \<in> pending_msgs s"
      by (force simp: pending_msgs_def)
  qed
  show "pending_msgs (trackCommand now p s w) \<subseteq> insert p (pending_msgs s)"
    by (auto simp: pending_msgs_def trackCommand_def split: option.splits dest: in_set_omap_insert)
qed

lemma kept_simps:
  "session_kept s (updateHeartbeat now s)" "session_kept s (fst (handleAck now c s w))"
  "session_kept s (fst (checkCommandTimeouts P now s w))" "session_kept s (fst (flushPendingCommands P s w))"
  "session_kept s (trackCommand now (msg_set_mode s) s w)" "session_kept s (fst (snd (getSetModeMsg mode hid s w)))"
proof -
  show "session_kept s (updateHeartbeat now s)"
    using other_session_inv(5) [of s now] by (auto simp: session_kept_def updateHeartbeat_def pending_msgs_def)
  have "session_id (fst (handleAck now c s w)) = session_id s" "session_conn (fst (handleAck now c s w)) = session_conn s"
      "msg_set_mode (fst (handleAck now c s w)) = msg_set_mode s"
    by (simp_all add: handleAck_def Let_def split: option.split)
  then show "session_kept s (fst (handleAck now c s w))"
    using ack_inv [of s now c w] pending_msgs_simps(1) [of now c s w] by (auto simp: session_kept_def)
  show "session_kept s (fst (checkCommandTimeouts P now s w))"
    using timeouts_inv [of s P now w] pending_msgs_simps(2) [of P now s w] by (auto simp: session_kept_def checkCommandTimeouts_eq)
  show "session_kept s (fst (flushPendingCommands P s w))"
    using other_session_inv(4) [of P s w] by (simp add: session_kept_def flush_posts pending_msgs_def)
  have "session_id (trackCommand now p s w) = session_id s" "session_conn (trackCommand now p s w) = session_conn s"
      "msg_set_mode (trackCommand now p s w) = msg_set_mode s" for p
    by (simp_all add: trackCommand_def split: option.split)
  then show "session_kept s (trackCommand now (msg_set_mode s) s w)"
    using track_inv [of s now "msg_set_mode s" w] pending_msgs_simps(3) [of now "msg_set_mode s" s w] by (simp add: session_kept_def)
  show "session_kept s (fst (snd (getSetModeMsg mode hid s w)))"
    using other_session_inv(6) [of s mode hid w] by (auto simp: session_kept_def getSetModeMsg_def Let_def pending_msgs_def)
qed

lemma kept_trans: "session_kept s s' \<Longrightarrow> session_kept s' s'' \<Longrightarrow> session_kept s s''"
  by (auto simp: session_kept_def)

section \<open>Removing a session\<close>

lemma drop_session_more [simp]:
  "sess (drop_session n w) = (sess w)(n := None)" "sessions (drop_session n w) = sessions w" "next_sess (drop_session n w) = next_sess w"
  "next_conn (drop_session n w) = next_conn w" "ctx (drop_session n w) = ctx w" "conns (drop_session n w) = conns w"
  "ctl_store (drop_session n w) = ctl_store w" "policies (drop_session n w) = policies w" "overload_mode (drop_session n w) = overload_mode w"
  "tracker (drop_session n w) = tracker w" "ctl_shutting_down (drop_session n w) = ctl_shutting_down w"
  "msgs (drop_session n w) = (case sess w n of None \<Rightarrow> msgs w | Some s \<Rightarrow> release (msg_set_mode s) (msgs w))"
  by (auto simp: drop_session_def destroy_session_def ctx_def fun_eq_iff split: option.split)

lemma delete_missing: "map_of xs k = None \<Longrightarrow> AList.delete k xs = xs"
  by (intro delete_id) (simp add: map_of_eq_None_iff)

lemma erase_session_more [simp]:
  "sess (erase_session aid w) = (case map_of (sessions w) aid of None \<Rightarrow> sess w | Some n \<Rightarrow> (sess w)(n := None))"
  "sessions (erase_session aid w) = AList.delete aid (sessions w)"
  "next_sess (erase_session aid w) = next_sess w" "next_conn (erase_session aid w) = next_conn w" "ctx (erase_session aid w) = ctx w"
  "conns (erase_session aid w) = conns w" "ctl_store (erase_session aid w) = ctl_store w" "policies (erase_session aid w) = policies w"
  "overload_mode (erase_session aid w) = overload_mode w" "tracker (erase_session aid w) = tracker w"
  "ctl_shutting_down (erase_session aid w) = ctl_shutting_down w"
  by (simp_all add: erase_session_def delete_missing split: option.split) (simp add: ctx_def fun_eq_iff)

lemma registered_iff:
  assumes "registry_ok w"
  shows "map_of (sessions w) aid = Some n \<longleftrightarrow> (\<exists>s. sess w n = Some s \<and> session_id s = aid)"
  using assms by (auto simp: registry_ok_def)

lemma reg_inv_erase:
  assumes inv: "reg_inv w"
  shows "reg_inv (erase_session aid w)"
proof (cases "map_of (sessions w) aid")
  case None
  then show ?thesis using inv by (simp add: erase_session_def)
next
  case (Some n)
  note parts = reg_inv_parts [OF inv]
  obtain s where s: "sess w n = Some s" "session_id s = aid"
    using Some registered_iff [OF parts(1)] by blast
  let ?w = "erase_session aid w"
  have ms: "msgs ?w = release (msg_set_mode s) (msgs w)"
    using Some s by (simp add: erase_session_def)
  have other: "session_id s' = aid \<longleftrightarrow> n' = n" if "sess w n' = Some s'" for n' s'
    using Some that registered_iff [OF parts(1), of aid n'] s by auto
  have "(a, n') \<in> set (sessions ?w) \<longleftrightarrow> (\<exists>t. sess ?w n' = Some t \<and> session_id t = a)" for a n'
  proof -
    have "(a, n') \<in> set (sessions ?w) \<longleftrightarrow> a \<noteq> aid \<and> (\<exists>t. sess w n' = Some t \<and> session_id t = a)"
      using parts(1) by (simp add: registry_ok_def in_set_delete)
    also have "\<dots> \<longleftrightarrow> n' \<noteq> n \<and> (\<exists>t. sess w n' = Some t \<and> session_id t = a)"
      using other by blast
    finally show ?thesis using Some by simp
  qed
  moreover have "distinct (map fst (sessions ?w))"
    using parts(1) by (simp add: registry_ok_def distinct_delete)
  ultimately have "registry_ok ?w"
    by (simp add: registry_ok_def del: erase_session_more)
  moreover have "separate_msgs ?w" "contexts_ok ?w"
    using parts(3,4) Some by (auto simp: separate_msgs_def contexts_ok_def split: if_splits)
  moreover have "session_ok ?w n' t" if "sess ?w n' = Some t" for n' t
  proof -
    have t: "sess w n' = Some t" "n' \<noteq> n"
      using that Some by (auto split: if_splits)
    then have "msg_set_mode t \<noteq> msg_set_mode s"
      using parts(3) s by (auto simp: separate_msgs_def)
    then show ?thesis
      using parts(2) [OF t(1)] ms by (auto simp: session_ok_def release_def live_def)
  qed
  moreover have "pool_inv (msgs ?w)"
    using parts(2) [OF s(1)] parts(5) ms by (auto simp: session_ok_def intro: msg_pool.rel_inv)
  ultimately show ?thesis by (simp add: reg_inv_def)
qed

text \<open>What was written to a session just before it is erased does not matter.\<close>

lemma erase_put:
  assumes "map_of (sessions w) aid = Some n" "sess w n = Some s" "msg_set_mode s' = msg_set_mode s"
  shows "erase_session aid (put_session n s' w) = erase_session aid w"
  using assms by (simp add: erase_session_def drop_session_def put_session_def destroy_session_def)

section \<open>Adding a session\<close>

lemma set_update:
  assumes "distinct (map fst xs)"
  shows "set (AList.update k v xs) = insert (k, v) (set (AList.delete k xs))"
  using assms
proof (induction xs)
  case (Cons x xs)
  then show ?case by (cases x) (auto simp: AList.delete_eq image_iff)
qed simp

lemma unregistered_conn:
  assumes "reg_inv w" "lock_context i w = None" "sess w n = Some s"
  shows "session_conn s \<noteq> Some i"
  using reg_inv_parts(2) [OF assms(1,3)] assms(2,3)
  by (auto simp: session_ok_def lock_context_def ctx_def getContext_def)

lemma reg_inv_add:
  assumes inv: "reg_inv v" and new: "map_of (sessions v) aid = None" "\<And>n s. sess v n = Some s \<Longrightarrow> session_conn s \<noteq> Some i"
    and msg: "msg_set_mode s \<in> live (msgs v) \<and> command_msg (heap (msgs v) (msg_set_mode s))" "\<And>n t. sess v n = Some t \<Longrightarrow> msg_set_mode t \<noteq> msg_set_mode s"
    and s: "session_id s = aid" "session_conn s = Some i" "pending_cmds s = []"
    and w: "sess w = (sess v)(next_sess v \<mapsto> s)" "set (sessions w) = insert (aid, next_sess v) (set (sessions v))"
      "distinct (map fst (sessions w))" "next_sess w = Suc (next_sess v)" "next_conn w = next_conn v" "msgs w = msgs v"
      "ctx w = (ctx v)(i := Some (Some (next_sess v)))" "ctx v i \<noteq> None"
  shows "reg_inv w"
proof -
  note parts = reg_inv_parts [OF inv]
  let ?n = "next_sess v"
  have fresh: "sess v ?n = None"
    using parts(2) [of ?n] by (cases "sess v ?n") (auto simp: session_ok_def)
  have none: "sess v n' = Some s' \<Longrightarrow> session_id s' \<noteq> aid" for n' s'
    using new(1) registered_iff [OF parts(1), of aid n'] by auto
  have "registry_ok w"
    using parts(1) w s none fresh by (auto simp: registry_ok_def)
  moreover have "separate_msgs w"
    using parts(3) msg(2) unfolding separate_msgs_def w(1) by (simp add: fun_upd_def) metis
  moreover have "contexts_ok w"
  proof -
    have "conns w j = None \<longleftrightarrow> ctx w j = None" "conns v j = None \<longleftrightarrow> ctx v j = None" for j
      by (simp_all add: ctx_def)
    then show ?thesis
      using parts(4) w s unfolding contexts_ok_def by (auto simp: less_Suc_eq)
  qed
  moreover have "session_ok w n t" if "sess w n = Some t" for n t
  proof (cases "n = ?n")
    case True
    then show ?thesis
      using that msg(1) s w by (auto simp: session_ok_def session_inv_def pending_msgs_def)
  next
    case False
    then have t: "sess v n = Some t" using that w(1) by simp
    with parts(2) [OF t] new(2) [OF t] obtain j where "session_conn t = Some j" "j \<noteq> i" "ctx v j = Some (Some n)"
      by (auto simp: session_ok_def)
    then show ?thesis
      using parts(2) [OF t] w by (simp add: session_ok_def)
  qed
  ultimately show ?thesis
    using parts(5) w by (simp add: reg_inv_def)
qed

lemma reg_inv_acquire:
  assumes inv: "reg_inv w" and a: "acquire m (msgs w) = (p, ms)"
  shows "reg_inv (w\<lparr>msgs := ms\<rparr>)"
proof -
  note parts = reg_inv_parts [OF inv]
  have "live ms = insert p (live (msgs w))"
    using msg_pool.acq_alive [OF parts(5) a] .
  moreover have "heap ms (msg_set_mode s) = heap (msgs w) (msg_set_mode s)" if "sess w n = Some s" for n s
    using msg_pool.live_object_kept(2) [OF parts(5) a] parts(2) [OF that] by (simp add: session_ok_def)
  ultimately have "session_ok (w\<lparr>msgs := ms\<rparr>) n s" if "sess w n = Some s" for n s
    using parts(2) [OF that] that by (auto simp: session_ok_def ctx_def)
  then show ?thesis
    using parts(1,3,4) msg_pool.acq_inv [OF parts(5) a] by (simp add: reg_inv_def reg_parts ctx_def)
qed

lemma reg_inv_register:
  assumes inv: "reg_inv w" and c: "conns w i \<noteq> None" "lock_context i w = None"
  shows "reg_inv (register_agent now ms i aid w)"
proof -
  obtain p M where a: "acquire (new_Message ms CMD_SET_MODE [] 0 0 0) (msgs w) = (p, M)" by force
  let ?w1 = "w\<lparr>msgs := M\<rparr>"
  let ?v = "erase_session aid ?w1"
  let ?s = "\<lparr>session_conn = Some i, session_id = aid, last_heartbeat = now, pending_cmds = [],
           payload_set_mode = CmdSetMode_fresh, msg_set_mode = p, has_tracker = True\<rparr>"
  note parts = reg_inv_parts [OF inv]
  have w1: "reg_inv ?w1" by (rule reg_inv_acquire [OF inv a])
  then have v: "reg_inv ?v" by (rule reg_inv_erase)
  have p: "p \<notin> live (msgs w)" "live M = insert p (live (msgs w))"
    using msg_pool.acq_fresh [OF parts(5) a] msg_pool.acq_alive [OF parts(5) a] by simp_all
  have sub: "sess ?v n = Some t \<Longrightarrow> sess w n = Some t" for n t
    by (auto split: option.splits if_splits)
  have notp: "sess w n = Some t \<Longrightarrow> msg_set_mode t \<noteq> p" for n t
    using parts(2) [of n t] p(1) by (auto simp: session_ok_def)
  have "heap (msgs ?v) p = heap M p"
    by (simp add: erase_session_def release_def split: option.split)
  then have live: "p \<in> live (msgs ?v)" "command_msg (heap (msgs ?v) p)"
    using p(2) notp msg_pool.acq_obj [OF parts(5) a]
    by (auto simp: erase_session_def live_def release_def command_msg_def new_Message_def split: option.split)
  have fresh: "map_of (sessions w) aid \<noteq> Some (next_sess w)"
    using parts(2) [of "next_sess w"] by (auto simp: registered_iff [OF parts(1)] session_ok_def)
  have w': "register_agent now ms i aid w =
      upd_conn i (setContext (Some (next_sess w))) (assign_session aid (next_sess w) (put_session (next_sess w) ?s (?w1\<lparr>next_sess := Suc (next_sess w)\<rparr>)))"
    by (simp add: register_agent_def new_AgentTcpSession_def a setAgentId_def Let_def)
  have d: "distinct (map fst (sessions w))"
    using parts(1) by (simp add: registry_ok_def)
  show ?thesis
  proof (rule reg_inv_add [OF v, of aid i ?s])
    show "map_of (sessions ?v) aid = None"
      by (simp add: delete_conv')
    show "session_conn t \<noteq> Some i" if "sess ?v n = Some t" for n t
      using unregistered_conn [OF inv c(2) sub [OF that]] .
    show "msg_set_mode t \<noteq> msg_set_mode ?s" if "sess ?v n = Some t" for n t
      using notp [OF sub [OF that]] by simp
    show "sess (register_agent now ms i aid w) = (sess ?v)(next_sess ?v \<mapsto> ?s)"
      unfolding w' using fresh by (auto simp: assign_session_def Let_def fun_eq_iff split: option.split)
    show "set (sessions (register_agent now ms i aid w)) = insert (aid, next_sess ?v) (set (sessions ?v))"
      unfolding w' using set_update [OF d] by (simp add: assign_session_def Let_def split: option.split)
    show "msgs (register_agent now ms i aid w) = msgs ?v"
      unfolding w' using fresh by (auto simp: assign_session_def erase_session_def Let_def split: option.split)
    show "ctx (register_agent now ms i aid w) = (ctx ?v)(i := Some (Some (next_sess ?v)))"
      unfolding w' using c(1)
      by (auto simp: assign_session_def Let_def ctx_def upd_conn_def setContext_def fun_eq_iff split: option.split)
  qed (use c(1) live d in \<open>simp_all add: w' assign_session_def Let_def ctx_def distinct_update split: option.split\<close>)
qed

section \<open>The handlers keep the invariant\<close>

lemma reg_inv_new_conn:
  assumes inv: "reg_inv w" and w: "sess w' = sess w" "sessions w' = sessions w" "next_sess w' = next_sess w"
    "next_conn w' = Suc (next_conn w)" "ctx w' = (ctx w)(next_conn w := Some None)"
    "live (msgs w') = live (msgs w)" "\<And>q. q \<in> live (msgs w) \<Longrightarrow> heap (msgs w') q = heap (msgs w) q" "pool_inv (msgs w')"
  shows "reg_inv w'"
proof -
  note parts = reg_inv_parts [OF inv]
  have none: "ctx w (next_conn w) = None"
    using parts(4) by (simp add: contexts_ok_def ctx_def)
  have "session_ok w' n s" if s: "sess w n = Some s" for n s
  proof -
    obtain i where i: "session_conn s = Some i" "ctx w i = Some (Some n)"
      using parts(2) [OF s] by (auto simp: session_ok_def)
    with none have "i \<noteq> next_conn w" by auto
    with i show ?thesis
      using parts(2) [OF s] w by (simp add: session_ok_def)
  qed
  moreover have "contexts_ok w'"
  proof -
    have "conns w' j = None \<longleftrightarrow> ctx w' j = None" "conns w j = None \<longleftrightarrow> ctx w j = None" for j
      by (simp_all add: ctx_def)
    then show ?thesis
      using parts(4) w unfolding contexts_ok_def by auto
  qed
  ultimately show ?thesis
    using parts w by (simp add: reg_inv_def registry_ok_def separate_msgs_def)
qed

lemma reg_inv_accept:
  assumes inv: "reg_inv w"
  shows "reg_inv (accept_done now ms ec w)"
proof (cases "ec = success")
  case False
  then show ?thesis using inv by (simp add: accept_done_def)
next
  case True
  obtain p M where a: "acquire (new_Message ms CMD_SET_MODE [] 0 0 0) (msgs w) = (p, M)" by force
  note pool = msg_pool.acquire_release [OF reg_inv_parts(5) [OF inv] a]
  show ?thesis
    using True
    by (intro reg_inv_new_conn [OF inv])
      (simp_all add: accept_done_def new_AgentTcpSession_def a destroy_session_def add_active_def doAccept_def
        upd_tracker_def upd_conn_def Let_def pool ctx_def fun_eq_iff tcp_defs new_TcpComm_def)
qed

lemma lock_context_sess: "lock_context i w = Some (n, s) \<Longrightarrow> sess w n = Some s \<and> ctx w i = Some (Some n)"
  by (auto simp: lock_context_def bind_eq_Some_conv ctx_def getContext_def)

lemma reg_inv_error: "reg_inv w \<Longrightarrow> reg_inv (ctl_error_handler i ec w)"
  by (auto simp: ctl_error_handler_def Let_def reg_inv_erase split: option.split)

lemma snd_handleAck: "\<exists>f. snd (handleAck now c s w) = upd_tracker f w"
  by (auto simp: handleAck_def Let_def upd_tracker_def split: option.split intro: exI [of _ id])

lemma reg_inv_ack:
  assumes "reg_inv w" "sess w n = Some s" "handleAck now c s w = (s', w')"
  shows "reg_inv (put_session n s' w')"
proof -
  obtain f where "w' = upd_tracker f w"
    using snd_handleAck [of now c s w] assms(3) by auto
  then show ?thesis
    using reg_inv_put [of w' n s s'] assms kept_simps(2) [of s now c w] by simp
qed

lemma reg_inv_message:
  assumes inv: "reg_inv w" and c: "conns w i \<noteq> None" and m: "ctl_onMessage now ms i m w = (r, w')"
  shows "reg_inv w'"
proof (cases "lock_context i w")
  case None
  then show ?thesis
    using m inv reg_inv_register [OF inv c None] reg_inv_upd_conn [of w i tcp_disconnect]
    by (auto simp: ctl_onMessage_def tcp_disconnect_def split: if_splits sum.splits)
next
  case (Some x)
  obtain n s where x: "x = (n, s)" by force
  with Some have s: "sess w n = Some s"
    using lock_context_sess by blast
  show ?thesis
    using m inv reg_inv_put [OF inv s kept_simps(1)] reg_inv_ack [OF inv s]
    by (auto simp: ctl_onMessage_def Some x split: if_splits sum.splits prod.splits)
qed

interpretation ctl_client: tcp_client "ctl_onMessage now ms" ctl_error_handler reg_inv
  for now ms
  by unfold_locales (auto simp: reg_inv_upd_conn intro: reg_inv_message reg_inv_error)

subsection \<open>Loops\<close>

lemma reg_inv_set_mode_msg:
  assumes inv: "reg_inv w" and s: "sess w n = Some s" and g: "getSetModeMsg mode hid s w = (p, s', w')"
  shows "reg_inv w' \<and> sess w' n = Some s \<and> p = msg_set_mode s \<and> session_kept s s'"
proof -
  have live: "msg_set_mode s \<in> live (msgs w)"
    using reg_inv_parts(2) [OF inv s] by (simp add: session_ok_def)
  then obtain m where m: "heap (msgs w) (msg_set_mode s) = Some m"
    by (auto simp: live_def)
  then obtain m' where w': "w' = w\<lparr>msgs := store (msg_set_mode s) m' (msgs w)\<rparr>" "msg_type (header m') = msg_type (header m)"
    using g by (auto simp: getSetModeMsg_def Let_def)
  have "command_msg (Some m)"
    using reg_inv_parts(2) [OF inv s] m by (simp add: session_ok_def)
  with w'(2) have "session_ok w' n' t" if "sess w n' = Some t" for n' t
    using reg_inv_parts(2) [OF inv that] store_live(1) [OF live, of m']
    by (simp add: session_ok_def w'(1) ctx_def store_def command_msg_def)
  then have "reg_inv w'"
    using reg_inv_parts [OF inv] store_live(2) [OF live, of m'] by (simp add: reg_inv_def reg_parts w' ctx_def)
  moreover have "p = msg_set_mode s" "session_kept s s'"
    using g kept_simps(6) [of s mode hid w] by (auto simp: getSetModeMsg_def Let_def)
  ultimately show ?thesis
    using s w' by simp
qed

lemma reg_inv_command_one:
  assumes inv: "reg_inv w"
  shows "reg_inv (command_one P t0 t1 mode hid n w)"
proof -
  have "reg_inv (put_session n (trackCommand t1 p s' w') (session_send P p (trackCommand t1 p s' w') w'))"
    if s: "sess w n = Some s" and g: "getSetModeMsg mode hid s w = (p, s', w')" for s p s' w'
  proof -
    note f = reg_inv_set_mode_msg [OF inv s g]
    then have "msg_set_mode s' = p" by (simp add: session_kept_def)
    then have "session_kept s (trackCommand t1 p s' w')"
      using f kept_trans kept_simps(5) by blast
    then show ?thesis
      using f by (intro reg_inv_put [of _ n s]) (simp_all add: session_send_posts)
  qed
  then show ?thesis
    using inv by (simp add: command_one_def Let_def split: option.split prod.split)
qed

lemma reg_inv_command: "reg_inv w \<Longrightarrow> reg_inv (command_loop P clk mode hid xs w)"
  by (induction P clk mode hid xs w rule: command_loop.induct) (simp_all add: reg_inv_command_one)

lemma reg_inv_policies: "reg_inv w \<Longrightarrow> reg_inv (policy_loop P clk avg pols w)"
proof (induction P clk avg pols w rule: policy_loop.induct)
  case (2 P clk avg pol pols w)
  have "reg_inv (apply_policy P (clk 0) avg pol w)"
    using "2.prems" by (auto simp: apply_policy_def getNextId_def Let_def intro!: reg_inv_command)
  with "2.IH" show ?case by simp
qed simp

lemma reg_inv_timeouts:
  assumes "reg_inv w" "sess w n = Some s" "checkCommandTimeouts P t s w = (s', w')"
  shows "reg_inv (put_session n s' w')"
proof (rule reg_inv_put [of _ n s])
  have "s' = fst (checkCommandTimeouts P t s w)" by (simp add: assms(3))
  then show "session_kept s s'" using kept_simps(3) by simp
  show "reg_inv w'" "sess w' n = Some s"
    using assms by (auto simp: checkCommandTimeouts_eq add_failures_def)
qed

text \<open>Dropping a session, and checking one that stays.\<close>

lemma health_one_eq:
  assumes s: "sess w n = Some s" "map_of (sessions w) aid = Some n"
  shows "health_one P t0 t1 aid n w =
    (if isHealthy t0 s w then put_session n (fst (checkCommandTimeouts P t1 s w)) (snd (checkCommandTimeouts P t1 s w))
     else erase_session aid (add_active (- 1) (post_on (session_conn s) [Close_socket] w)))"
proof -
  let ?w = "add_active (- 1) (post_on (session_conn s) [Close_socket] w)" and ?s = "s\<lparr>session_conn := None\<rparr>"
  have "add_active (- 1) (put_session n ?s (post_on (session_conn s) [Close_socket] w)) = put_session n ?s ?w"
    by (simp add: add_active_def upd_tracker_def put_session_def)
  moreover have "erase_session aid (put_session n ?s ?w) = erase_session aid ?w"
    by (rule erase_put [of _ _ n s]) (simp_all add: s add_active_def)
  ultimately show ?thesis
    using s by (simp add: health_one_def disconnect_posts case_prod_beta)
qed

lemma health_one_sessions:
  assumes "reg_inv w" "(aid, n) \<in> set (sessions w)"
  shows "reg_inv (health_one P t0 t1 aid n w)"
    "set (sessions w) - {(aid, n)} \<subseteq> set (sessions (health_one P t0 t1 aid n w))"
proof -
  note parts = reg_inv_parts [OF assms(1)]
  obtain s where s: "sess w n = Some s" "map_of (sessions w) aid = Some n"
    using assms(2) parts(1) by (auto simp: registry_ok_def)
  obtain s' w' where t: "checkCommandTimeouts P t1 s w = (s', w')" by force
  show "reg_inv (health_one P t0 t1 aid n w)"
    unfolding health_one_eq [OF s] using assms(1) reg_inv_timeouts [OF assms(1) s(1) t] t by (simp add: reg_inv_erase)
  have "n' = n" if "(aid, n') \<in> set (sessions w)" for n'
    using that assms(2) parts(1) by (auto simp: registry_ok_def dest: eq_key_imp_eq_value)
  then show "set (sessions w) - {(aid, n)} \<subseteq> set (sessions (health_one P t0 t1 aid n w))"
    unfolding health_one_eq [OF s] using t
    by (auto simp: in_set_delete add_active_def checkCommandTimeouts_eq add_failures_def)
qed

lemma reg_inv_health:
  "reg_inv w \<Longrightarrow> distinct (map fst xs) \<Longrightarrow> set xs \<subseteq> set (sessions w) \<Longrightarrow> reg_inv (health_loop P clk xs w)"
proof (induction P clk xs w rule: health_loop.induct)
  case (2 P clk aid n rest w)
  let ?w = "health_one P (clk 0) (clk 1) aid n w"
  have "reg_inv ?w" "set (sessions w) - {(aid, n)} \<subseteq> set (sessions ?w)"
    using health_one_sessions [of w aid n] "2.prems" by simp_all
  moreover have "(aid, n) \<notin> set rest"
    using "2.prems"(2) by force
  ultimately show ?case
    using "2.IH" "2.prems"(2,3) by (simp del: One_nat_def) blast
qed simp

lemma reg_inv_flush_one: "reg_inv w \<Longrightarrow> reg_inv (flush_one P n w)"
  using kept_simps(4) by (auto simp: flush_one_def flush_posts Let_def intro!: reg_inv_put split: option.split)

lemma reg_inv_flush: "reg_inv w \<Longrightarrow> reg_inv (flush_loop P xs w)"
  by (induction P xs w rule: flush_loop.induct) (simp_all add: reg_inv_flush_one)

lemma reg_inv_broadcast: "reg_inv w \<Longrightarrow> reg_inv (broadcast_loop P clk p xs w)"
  by (induction P clk p xs w rule: broadcast_loop.induct) (auto simp: broadcast_one_def session_send_posts split: option.split)

end
