(* ===== verification/Fleet_Runs.thy ===== *)
theory Fleet_Runs
  imports Fleet_Invariant
begin

text \<open>
  Runs of the controller: everything the event loop, the connections, the owner of the command bus and the rest of
  the process can do, in any order; and what holds in every state such a run reaches.
\<close>

section \<open>Runs\<close>

lemma reg_inv_pool:
  assumes inv: "reg_inv w" and ms: "pool_inv ms"
    "\<And>n s. sess w n = Some s \<Longrightarrow> msg_set_mode s \<in> live ms \<and> heap ms (msg_set_mode s) = heap (msgs w) (msg_set_mode s)"
  shows "reg_inv (w\<lparr>msgs := ms\<rparr>)"
  using inv ms by (auto simp: reg_inv_def reg_parts session_ok_def ctx_def)

lemma reg_inv_rehash:
  assumes "reg_inv w" "set xs = set (sessions w)" "distinct (map fst xs)"
  shows "reg_inv (w\<lparr>sessions := xs\<rparr>)"
  using assms by (simp add: reg_inv_def reg_parts session_ok_def ctx_def)

lemma read_load_inv: "reg_inv w \<Longrightarrow> loadPolicies J junk f w = Inr w' \<Longrightarrow> reg_inv w'"
  by (auto simp: loadPolicies_def Let_def split: sum.splits bool.splits if_splits)

lemma check_update_inv: "reg_inv w \<Longrightarrow> checkPolicyUpdate J junk f g w = Inr w' \<Longrightarrow> reg_inv w'"
  by (auto simp: checkPolicyUpdate_def intro: read_load_inv split: sum.splits bool.splits if_splits)

lemma reg_inv_check_sessions: "reg_inv w \<Longrightarrow> reg_inv (check_sessions P clk clk' w)"
  unfolding check_sessions_def Let_def
  by (intro reg_inv_policies reg_inv_health) (auto simp: reg_inv_def registry_ok_def)

lemma reg_inv_tick:
  assumes "reg_inv w" "health_check_done P J junk f g clk clk' ec w = Inr w'"
  shows "reg_inv w'"
  using assms check_update_inv [of "w\<lparr>timer_pending := False\<rparr>" J junk f g]
  by (auto simp: health_check_done_def Let_def err_simps reg_inv_check_sessions split: if_splits)

text \<open>
  The first rules are the handlers of the controller and of its metrics server, then the completions of its connections and their posted
  closures (a handler may also be called with any message or error), then the calls of the command bus, whose
  owner sends messages of the set \<open>B\<close> only, and writes through the reference \<^verbatim>\<open>getStore\<close> hands out. The health
  timer is cancelled only by the shutdown, so until then its waits end with success. \<open>step_rehash\<close> lets the hash map change its
  iteration order; the last three rules are the other users of the message pool (parsed messages come from it), who leave the
  sessions' objects alone.
\<close>

inductive ctl_step :: "IMessageParser \<Rightarrow> 'j json_api \<Rightarrow> MessageType \<Rightarrow> Message set \<Rightarrow> Controller \<Rightarrow> Controller \<Rightarrow> bool"
  for P :: IMessageParser and J :: "'j json_api" and junk :: MessageType and B :: "Message set" where
  step_accept: "accept_pending w \<Longrightarrow> ctl_step P J junk B w (accept_done now ms ec w)"
| step_tick: "timer_pending w \<Longrightarrow> (ec = success \<or> ctl_shutting_down w) \<Longrightarrow>
    health_check_done P J junk f g clk clk' ec w = Inr w' \<Longrightarrow> ctl_step P J junk B w w'"
| step_scrape: "server_accepting (metrics w) \<Longrightarrow> metrics_accept_done (tracker w) ec (metrics w) = Inr v \<Longrightarrow>
    ctl_step P J junk B w (w\<lparr>metrics := v\<rparr>)"
| step_scraped:
    "ctl_step P J junk B w (w\<lparr>metrics := (metrics w)\<lparr>scrapes := (scrapes (metrics w))[k := scrape_written ec (scrapes (metrics w) ! k)]\<rparr>\<rparr>)"
| step_signal: "ctl_step P J junk B w (ctl_signal_done P ec w)"
| step_header: "conns w i = Some c \<Longrightarrow> reading c = Some Header_read \<Longrightarrow>
    ctl_step P J junk B w (readHeader_done P ctl_error_handler i ec data w)"
| step_body: "conns w i = Some c \<Longrightarrow> reading c = Some (Body_read tot) \<Longrightarrow>
    readBody_done P (ctl_onMessage now ms) ctl_error_handler i tot ec data w = Inr w' \<Longrightarrow> ctl_step P J junk B w w'"
| step_message: "conns w i = Some c \<Longrightarrow> ctl_onMessage now ms i m w = (r, w') \<Longrightarrow> ctl_step P J junk B w w'"
| step_error: "ctl_step P J junk B w (ctl_error_handler i ec w)"
| step_written: "conns w i = Some c \<Longrightarrow> writing c = b # rest \<Longrightarrow> ctl_step P J junk B w (write_done ctl_error_handler i ec w)"
| step_posted: "conns w i = Some c \<Longrightarrow> k < length (posted c) \<Longrightarrow> ctl_step P J junk B w (upd_conn i (run_posted k) w)"
| step_broadcast: "(\<And>m. heap (msgs w) p = Some m \<Longrightarrow> m \<in> B) \<Longrightarrow> ctl_step P J junk B w (broadcastCommand P clk p w)"
| step_send_to: "(\<And>m. heap (msgs w) p = Some m \<Longrightarrow> m \<in> B) \<Longrightarrow> ctl_step P J junk B w (sendCommandTo P now aid p w)"
| step_clear: "ctl_step P J junk B w (clearPolicies w)"
| step_add: "ctl_step P J junk B w (addPolicy pol w)"
| step_store: "ctl_step P J junk B w (putStore (updateAgentState aid st ts (getStore w)) w)"
| step_rehash: "mset xs = mset (sessions w) \<Longrightarrow> ctl_step P J junk B w (w\<lparr>sessions := xs\<rparr>)"
| step_pool_acquire: "acquire m (msgs w) = (p, ms) \<Longrightarrow> ctl_step P J junk B w (w\<lparr>msgs := ms\<rparr>)"
| step_pool_store: "p \<in> live (msgs w) \<Longrightarrow> (\<And>n s. sess w n = Some s \<Longrightarrow> msg_set_mode s \<noteq> p) \<Longrightarrow>
    ctl_step P J junk B w (w\<lparr>msgs := store p m (msgs w)\<rparr>)"
| step_pool_release: "p \<in> live (msgs w) \<Longrightarrow> (\<And>n s. sess w n = Some s \<Longrightarrow> msg_set_mode s \<noteq> p) \<Longrightarrow>
    ctl_step P J junk B w (w\<lparr>msgs := release p (msgs w)\<rparr>)"

inductive ctl_run :: "IMessageParser \<Rightarrow> 'j json_api \<Rightarrow> MessageType \<Rightarrow> Message set \<Rightarrow> Controller \<Rightarrow> bool"
  for P :: IMessageParser and J :: "'j json_api" and junk :: MessageType and B :: "Message set" where
  ctl_new: "new_Controller J junk f empty_pool = Inr w \<Longrightarrow> ctl_run P J junk B w"
| ctl_next: "ctl_run P J junk B w \<Longrightarrow> ctl_step P J junk B w w' \<Longrightarrow> ctl_run P J junk B w'"

text \<open>A run goes on with any of the steps.\<close>

lemmas ctl_accept = ctl_next [OF _ step_accept]
lemmas ctl_tick = ctl_next [OF _ step_tick]
lemmas ctl_header = ctl_next [OF _ step_header]
lemmas ctl_body = ctl_next [OF _ step_body]
lemmas ctl_message = ctl_next [OF _ step_message]
lemmas ctl_written = ctl_next [OF _ step_written]
lemmas ctl_posted = ctl_next [OF _ step_posted]
lemmas ctl_send_to = ctl_next [OF _ step_send_to]
lemmas ctl_add = ctl_next [OF _ step_add]
lemmas ctl_pool_acquire = ctl_next [OF _ step_pool_acquire]

lemma reg_inv_start:
  assumes "new_Controller J junk f empty_pool = Inr w"
  shows "reg_inv w"
proof -
  let ?w = "\<lparr>conns = Map.empty, msgs = empty_pool, tracker = new_MetricsTracker, sess = Map.empty, next_sess = 0, next_conn = 0,
        sessions = [], ctl_store = new_StateStore, policies = [], last_policy_file_time = 0, ctl_counters = [],
        overload_mode = False, ctl_shutting_down = False, accept_pending = False, timer_pending = False, metrics = new_MetricsServer\<rparr>"
  have "reg_inv ?w"
    by (simp add: reg_inv_def reg_parts ctx_def)
  with assms show ?thesis
    using read_load_inv [of ?w J junk f] by (auto simp: new_Controller_def err_simps)
qed

lemma reg_inv_step: "ctl_step P J junk B w w' \<Longrightarrow> reg_inv w \<Longrightarrow> reg_inv w'"
proof (induction rule: ctl_step.induct)
  case (step_rehash xs w)
  then show ?case
    using mset_eq_setD [of xs "sessions w"] mset_eq_imp_distinct_iff [of "map fst xs" "map fst (sessions w)"]
    by (intro reg_inv_rehash) (auto simp: reg_inv_def registry_ok_def)
next
  case (step_pool_acquire m w p ms)
  then show ?case by (simp add: reg_inv_acquire)
next
  case (step_pool_store p w m)
  then show ?case
    using store_live [of p "msgs w" m] reg_inv_parts(2,5) [of w]
    by (intro reg_inv_pool) (auto simp: store_def session_ok_def)
next
  case (step_pool_release p w)
  then show ?case
    using msg_pool.rel_inv [of "msgs w" p] msg_pool.rel_alive [of "msgs w" p] reg_inv_parts(2,5) [of w]
    by (intro reg_inv_pool) (auto simp: session_ok_def msg_pool.rel_obj)
next
  case (step_message w i c now ms m r w')
  then have "conns w i \<noteq> None" by simp
  then show ?case
    using reg_inv_message step_message by blast
next
  case (step_body w i c tot now ms ec data w')
  then show ?case
    using ctl_client.readBody_done_inv [of w P now ms i tot ec data w'] by simp
qed (auto simp: reg_inv_accept reg_inv_error ctl_signal_done_def shutdownController_def broadcastCommand_def sendCommandTo_def
    putStore_def session_send_posts reg_inv_flush reg_inv_broadcast ctl_client.readHeader_done_inv ctl_client.write_completion_inv
    ctl_client.run_posted_inv intro: reg_inv_tick split: option.split)

lemma ctl_run_inv: "ctl_run P J junk B w \<Longrightarrow> reg_inv w"
  by (induction rule: ctl_run.induct) (auto simp: reg_inv_start intro: reg_inv_step)

end
