(* ===== verification/Fleet_Loops.thy ===== *)
theory Fleet_Loops
  imports Fleet_Runs
begin

text \<open>
  What the loops of the health check do to each session. Both loops run a body per session that touches only that
  session, its connection, its message object and its entry; the locale \<open>session_loop\<close> states this contract and
  derives that the loop does to the \<open>k\<close>-th session exactly what its body does, at its own clock readings.
\<close>

section \<open>The contract of a loop over the sessions\<close>

definition touches_only :: "nat \<Rightarrow> AgentTcpSession \<Rightarrow> Controller \<Rightarrow> Controller \<Rightarrow> bool" where
  "touches_only n s w w' \<longleftrightarrow>
     (\<forall>n'. n' \<noteq> n \<longrightarrow> sess w' n' = sess w n') \<and>
     (\<forall>a. a \<noteq> session_id s \<longrightarrow> map_of (sessions w') a = map_of (sessions w) a) \<and>
     (\<forall>j. session_conn s \<noteq> Some j \<longrightarrow> conns w' j = conns w j) \<and> ctx w' = ctx w \<and>
     (\<forall>q. q \<noteq> msg_set_mode s \<longrightarrow> heap (msgs w') q = heap (msgs w) q)"

text \<open>What a body sees of one session, and what the rest of the loop leaves of it.\<close>

definition same_session :: "u32 \<Rightarrow> nat \<Rightarrow> nat \<Rightarrow> Controller \<Rightarrow> Controller \<Rightarrow> bool" where
  "same_session aid n i w w' \<longleftrightarrow>
     sess w' n = sess w n \<and> map_of (sessions w') aid = map_of (sessions w) aid \<and> conns w' i = conns w i \<and> ctx w' = ctx w"

locale session_loop =
  fixes body :: "time_point \<Rightarrow> time_point \<Rightarrow> u32 \<Rightarrow> nat \<Rightarrow> Controller \<Rightarrow> Controller"
    and loop :: "(nat \<Rightarrow> time_point) \<Rightarrow> (u32 \<times> nat) list \<Rightarrow> Controller \<Rightarrow> Controller"
  assumes loop_Nil: "loop clk [] w = w"
    and loop_Cons: "loop clk ((aid, n) # xs) w = loop (\<lambda>k. clk (k + 2)) xs (body (clk 0) (clk 1) aid n w)"
    and body_inv: "reg_inv w \<Longrightarrow> map_of (sessions w) aid = Some n \<Longrightarrow> reg_inv (body t0 t1 aid n w)"
    and body_frame: "reg_inv w \<Longrightarrow> map_of (sessions w) aid = Some n \<Longrightarrow> sess w n = Some s \<Longrightarrow> touches_only n s w (body t0 t1 aid n w)"
begin

lemma body_other:
  assumes inv: "reg_inv w" and x: "map_of (sessions w) aid' = Some n'" and n: "n' \<noteq> n" "aid' \<noteq> aid" and i: "ctx w i = Some (Some n)"
  shows "same_session aid n i w (body t0 t1 aid' n' w)"
    "sess w n = Some s \<Longrightarrow> heap (msgs (body t0 t1 aid' n' w)) (msg_set_mode s) = heap (msgs w) (msg_set_mode s)"
    "a \<noteq> aid' \<Longrightarrow> map_of (sessions (body t0 t1 aid' n' w)) a = map_of (sessions w) a"
proof -
  obtain t where t: "sess w n' = Some t" "session_id t = aid'"
    using x registered_iff [OF reg_inv_parts(1) [OF inv]] by blast
  note f = body_frame [OF inv x t(1), of t0 t1, unfolded touches_only_def]
  obtain j where j: "session_conn t = Some j" "ctx w j = Some (Some n')"
    using reg_inv_parts(2) [OF inv t(1)] by (auto simp: session_ok_def)
  with i n have "session_conn t \<noteq> Some i" by auto
  then show "same_session aid n i w (body t0 t1 aid' n' w)"
    using f n t(2) by (simp add: same_session_def)
  show "heap (msgs (body t0 t1 aid' n' w)) (msg_set_mode s) = heap (msgs w) (msg_set_mode s)" if "sess w n = Some s"
  proof -
    have "msg_set_mode s \<noteq> msg_set_mode t"
      using that t(1) n(1) reg_inv_parts(3) [OF inv] unfolding separate_msgs_def by blast
    with f show ?thesis by simp
  qed
  show "map_of (sessions (body t0 t1 aid' n' w)) a = map_of (sessions w) a" if "a \<noteq> aid'"
    using f t(2) that by simp
qed

lemma loop_others:
  "reg_inv w \<Longrightarrow> distinct (map fst xs) \<Longrightarrow> (\<And>a m. (a, m) \<in> set xs \<Longrightarrow> map_of (sessions w) a = Some m \<and> a \<noteq> aid \<and> m \<noteq> n) \<Longrightarrow>
   ctx w i = Some (Some n) \<Longrightarrow> same_session aid n i w (loop clk xs w)"
proof (induction xs arbitrary: clk w)
  case (Cons x xs)
  obtain a m where x: "x = (a, m)" by force
  let ?w = "body (clk 0) (clk 1) a m w"
  have am: "map_of (sessions w) a = Some m" "a \<noteq> aid" "m \<noteq> n"
    using Cons.prems(3) x by auto
  note step = body_other [OF Cons.prems(1) am(1) am(3,2) Cons.prems(4), where ?t0.0 = "clk 0" and ?t1.0 = "clk 1"]
  have "map_of (sessions ?w) b = Some k \<and> b \<noteq> aid \<and> k \<noteq> n" if "(b, k) \<in> set xs" for b k
    using that Cons.prems(2,3) step(3) [of b] x by (force simp: image_iff)
  then have "same_session aid n i ?w (loop (\<lambda>k. clk (k + 2)) xs ?w)"
    using Cons.IH [of ?w] Cons.prems body_inv [OF Cons.prems(1) am(1)] step(1) x by (simp add: same_session_def)
  then show ?case
    using step(1) x by (simp add: same_session_def loop_Cons)
qed (simp add: loop_Nil same_session_def)

text \<open>
  The \<open>k\<close>-th session: its body runs in a world that shows it the same session, connection and message as the
  first one, and nothing of its result is touched afterwards.
\<close>

lemma loop_at:
  assumes "reg_inv w" "distinct (map fst xs)" "\<And>a m. (a, m) \<in> set xs \<Longrightarrow> map_of (sessions w) a = Some m"
    and "k < length xs" "xs ! k = (aid, n)" "sess w n = Some s" "ctx w i = Some (Some n)"
  shows "\<exists>u. reg_inv u \<and> same_session aid n i w u \<and> heap (msgs u) (msg_set_mode s) = heap (msgs w) (msg_set_mode s) \<and>
    same_session aid n i (body (clk (2 * k)) (clk (2 * k + 1)) aid n u) (loop clk xs w)"
  using assms
proof (induction xs arbitrary: clk w k)
  case (Cons x xs)
  obtain a m where x: "x = (a, m)" by force
  let ?w = "body (clk 0) (clk 1) a m w"
  have am: "map_of (sessions w) a = Some m"
    using Cons.prems(3) x by auto
  have inv: "reg_inv ?w" by (rule body_inv [OF Cons.prems(1) am])
  obtain t where t: "sess w m = Some t" "session_id t = a"
    using am registered_iff [OF reg_inv_parts(1) [OF Cons.prems(1)]] by blast
  note f = body_frame [OF Cons.prems(1) am t(1), of "clk 0" "clk 1", unfolded touches_only_def]
  have dist: "b \<noteq> a \<and> l \<noteq> m" if "(b, l) \<in> set xs" for b l
    using that Cons.prems(2,3) registered_iff [OF reg_inv_parts(1) [OF Cons.prems(1)]] t x by (force simp: image_iff)
  have rest: "map_of (sessions ?w) b = Some l" if "(b, l) \<in> set xs" for b l
    using that Cons.prems(3) f t(2) dist [OF that] x by auto
  show ?case
  proof (cases k)
    case 0
    then have k: "a = aid" "m = n" using Cons.prems(5) x by auto
    have "ctx ?w i = Some (Some n)"
      using f Cons.prems(7) by simp
    then have "same_session aid n i ?w (loop (\<lambda>k. clk (k + 2)) xs ?w)"
      using loop_others [OF inv] Cons.prems(2) rest dist k by auto
    then show ?thesis
      using 0 x k Cons.prems(1) by (intro exI [of _ w]) (simp add: same_session_def loop_Cons)
  next
    case (Suc k')
    then have k': "k' < length xs" "xs ! k' = (aid, n)" using Cons.prems(4,5) by simp_all
    then have n: "aid \<noteq> a" "n \<noteq> m" using dist nth_mem by metis+
    note step = body_other [OF Cons.prems(1) am n(2) [symmetric] n(1) [symmetric] Cons.prems(7), where ?t0.0 = "clk 0" and ?t1.0 = "clk 1"]
    obtain u where u: "reg_inv u" "same_session aid n i ?w u" "heap (msgs u) (msg_set_mode s) = heap (msgs ?w) (msg_set_mode s)"
      "same_session aid n i (body (clk (2 * k' + 2)) (clk (2 * k' + 1 + 2)) aid n u) (loop (\<lambda>k. clk (k + 2)) xs ?w)"
      using Cons.IH [of ?w k' "\<lambda>k. clk (k + 2)"] inv Cons.prems(2,6,7) rest k' step(1) x by (auto simp: same_session_def)
    then show ?thesis
      using step(1) step(2) [OF Cons.prems(6)] Suc x by (intro exI [of _ u]) (simp add: same_session_def loop_Cons numeral_3_eq_3)
  qed
qed simp

end

section \<open>The health loop\<close>

lemma ctx_msgs [simp]: "ctx (w\<lparr>msgs := ms\<rparr>) = ctx w"
  by (simp add: ctx_def fun_eq_iff)

lemma heap_erase [simp]: "heap (msgs (erase_session aid w)) = heap (msgs w)"
  by (simp add: erase_session_def release_def split: option.split)

lemma health_body_frame:
  assumes "reg_inv w" "map_of (sessions w) aid = Some n" "sess w n = Some s"
  shows "touches_only n s w (health_one P t0 t1 aid n w)"
proof -
  have "session_id s = aid"
    using registered_iff [OF reg_inv_parts(1) [OF assms(1)]] assms(2,3) by auto
  then show ?thesis
    unfolding health_one_eq [OF assms(3,2)] using assms(2,3)
    by (simp add: touches_only_def checkCommandTimeouts_eq add_active_def add_failures_def delete_conv')
qed

interpretation health: session_loop "health_one P" "health_loop P"
  for P
  by unfold_locales (auto intro: health_one_sessions(1) health_body_frame dest: map_of_SomeD)

section \<open>The command loop\<close>

text \<open>The session's message object and pending commands after a command was issued.\<close>

definition command_message :: "u32 \<Rightarrow> u32 \<Rightarrow> Message \<Rightarrow> Message" where
  "command_message mode hid m =
     m\<lparr>payload := CmdSetMode_serialize \<lparr>set_mode = mode\<rparr>, header := (header m)\<lparr>header_id := hid, payload_len := 4\<rparr>\<rparr>"

definition commanded :: "u32 \<Rightarrow> u32 \<Rightarrow> time_point \<Rightarrow> AgentTcpSession \<Rightarrow> AgentTcpSession" where
  "commanded mode hid t s =
     s\<lparr>payload_set_mode := \<lparr>set_mode = mode\<rparr>,
       pending_cmds := omap_insert hid \<lparr>pc_msg = msg_set_mode s, last_send = t, retry_count = 0\<rparr> (pending_cmds s)\<rparr>"

lemma command_one_eq:
  assumes s: "sess w n = Some s" "heap (msgs w) (msg_set_mode s) = Some m" "session_conn s = Some i"
  shows "command_one P t0 t1 mode hid n w =
    (if isHealthy t0 s w
     then put_session n (commanded mode hid t1 s)
       (post_on (Some i) [Push_frame (parser_serialize P (command_message mode hid m))]
         (w\<lparr>msgs := store (msg_set_mode s) (command_message mode hid m) (msgs w)\<rparr>))
     else w)"
proof -
  have rec: "(x :: CmdSetModePayload)\<lparr>set_mode := v\<rparr> = \<lparr>set_mode = v\<rparr>" for x v
    by (cases x) simp
  let ?w1 = "w\<lparr>msgs := store (msg_set_mode s) (command_message mode hid m) (msgs w)\<rparr>"
  let ?s1 = "s\<lparr>payload_set_mode := \<lparr>set_mode = mode\<rparr>\<rparr>"
  have "getSetModeMsg mode hid s w = (msg_set_mode s, ?s1, ?w1)"
    using s by (simp add: getSetModeMsg_def Let_def rec command_message_def CmdSetMode_serialize_def)
  moreover have "trackCommand t1 (msg_set_mode s) ?s1 ?w1 = commanded mode hid t1 s"
    by (simp add: trackCommand_def store_def commanded_def command_message_def)
  moreover have "session_send P (msg_set_mode s) (commanded mode hid t1 s) ?w1 =
      post_on (Some i) [Push_frame (parser_serialize P (command_message mode hid m))] ?w1"
    using s by (simp add: session_send_posts commanded_def send_tasks_def store_def)
  ultimately show ?thesis
    using s by (simp add: command_one_def Let_def)
qed

lemma session_facts:
  assumes "reg_inv w" "sess w n = Some s"
  obtains i m c where "session_conn s = Some i" "ctx w i = Some (Some n)" "heap (msgs w) (msg_set_mode s) = Some m"
    "msg_type (header m) = CMD_SET_MODE" "conns w i = Some c"
  using reg_inv_parts(2) [OF assms] by (auto simp: session_ok_def command_msg_def ctx_def)

lemma command_body_frame:
  assumes "reg_inv w" "sess w n = Some s"
  shows "touches_only n s w (command_one P t0 t1 mode hid n w)"
proof -
  obtain i m c where "session_conn s = Some i" "heap (msgs w) (msg_set_mode s) = Some m"
    by (rule session_facts [OF assms])
  then show ?thesis
    using command_one_eq [OF assms(2), of m i] by (simp add: touches_only_def store_def)
qed

interpretation commands: session_loop "\<lambda>t0 t1 aid n. command_one P t0 t1 mode hid n" "\<lambda>clk. command_loop P clk mode hid"
  for P mode hid
  by unfold_locales (auto intro: reg_inv_command_one command_body_frame)

lemma isHealthy_cong: "session_conn s = Some i \<Longrightarrow> conns w i = conns w' i \<Longrightarrow> isHealthy t s w = isHealthy t s w'"
  by (simp add: isHealthy_def)

section \<open>The flush loop\<close>

text \<open>All pending commands of a session encode the one object they share.\<close>

lemma flush_one_eq:
  assumes s: "sess w n = Some s" "heap (msgs w) (msg_set_mode s) = Some m" "session_conn s = Some i" "pending_msgs s \<subseteq> {msg_set_mode s}"
  shows "flush_one P n w = put_session n (s\<lparr>pending_cmds := []\<rparr>)
    (post_on (Some i) (replicate (length (pending_cmds s)) (Push_frame (parser_serialize P m)) @ [Flush_close]) w)"
proof -
  have "concat (map (\<lambda>(k, pc). send_tasks P (heap (msgs w)) (pc_msg pc)) xs) = replicate (length xs) (Push_frame (parser_serialize P m))"
    if "(\<lambda>x. pc_msg (snd x)) ` set xs \<subseteq> {msg_set_mode s}" for xs
    using that by (induction xs) (auto simp: send_tasks_def s(2))
  from this [OF s(4) [unfolded pending_msgs_def]] show ?thesis
    using s(1,3) by (simp add: flush_one_def flush_posts)
qed

lemma flush_body_frame:
  assumes "reg_inv w" "sess w n = Some s"
  shows "touches_only n s w (flush_one P n w)"
  using assms by (simp add: touches_only_def flush_one_def flush_posts)

interpretation flush: session_loop "\<lambda>t0 t1 aid n. flush_one P n" "\<lambda>clk. flush_loop P"
  for P
  by unfold_locales (auto intro: reg_inv_flush_one flush_body_frame)

section \<open>The loops from a reachable state\<close>

lemma registry_entries:
  assumes "reg_inv w" "k < length (sessions w)" "sessions w ! k = (aid, n)"
  shows "distinct (map fst (sessions w))" "(a, m) \<in> set (sessions w) \<Longrightarrow> map_of (sessions w) a = Some m"
    "map_of (sessions w) aid = Some n"
proof -
  show d: "distinct (map fst (sessions w))"
    using reg_inv_parts(1) [OF assms(1)] by (simp add: registry_ok_def)
  then show "(a, m) \<in> set (sessions w) \<Longrightarrow> map_of (sessions w) a = Some m"
    by simp
  show "map_of (sessions w) aid = Some n"
    using assms(2,3) d nth_mem [OF assms(2)] by simp
qed

lemma health_loop_at:
  assumes w: "reg_inv w" and k: "k < length (sessions w)" "sessions w ! k = (aid, n)" and s: "sess w n = Some s"
    "session_conn s = Some i" "conns w i = Some c" "ctx w i = Some (Some n)"
    and w': "w' = health_loop P clk (sessions w) w"
  shows "if isHealthy (clk (2 * k)) s w
    then map_of (sessions w') aid = Some n \<and> sess w' n = Some (s\<lparr>pending_cmds := advance_all (clk (2 * k + 1)) (pending_cmds s)\<rparr>)
    else map_of (sessions w') aid = None \<and> sess w' n = None \<and> conns w' i = Some (c\<lparr>posted := posted c @ [Close_socket]\<rparr>)"
proof -
  note e = registry_entries [OF w k]
  obtain u where u: "same_session aid n i w u"
      "same_session aid n i (health_one P (clk (2 * k)) (clk (2 * k + 1)) aid n u) w'"
    using health.loop_at [OF w e(1,2) k s(1,4), of P clk] by (auto simp: w')
  have su: "sess u n = Some s" "map_of (sessions u) aid = Some n" "conns u i = Some c"
    using u(1) s e(3) by (simp_all add: same_session_def)
  have "isHealthy (clk (2 * k)) s u = isHealthy (clk (2 * k)) s w"
    using s su by (intro isHealthy_cong [of _ i]) simp_all
  then show ?thesis
    using u(2) su s(2) unfolding health_one_eq [OF su(1,2)]
    by (simp add: same_session_def checkCommandTimeouts_eq add_failures_def add_active_def delete_conv' post_def split: if_splits)
qed

lemma command_loop_at:
  assumes w: "reg_inv w" and k: "k < length (sessions w)" "sessions w ! k = (aid, n)" and s: "sess w n = Some s"
    "session_conn s = Some i" "conns w i = Some c" "ctx w i = Some (Some n)" "heap (msgs w) (msg_set_mode s) = Some m"
    and w': "w' = command_loop P clk mode hid (sessions w) w"
  shows "if isHealthy (clk (2 * k)) s w
    then sess w' n = Some (commanded mode hid (clk (2 * k + 1)) s) \<and>
      conns w' i = Some (c\<lparr>posted := posted c @ [Push_frame (parser_serialize P (command_message mode hid m))]\<rparr>)
    else sess w' n = Some s \<and> conns w' i = Some c"
proof -
  note e = registry_entries [OF w k]
  obtain u where u: "same_session aid n i w u" "heap (msgs u) (msg_set_mode s) = heap (msgs w) (msg_set_mode s)"
      "same_session aid n i (command_one P (clk (2 * k)) (clk (2 * k + 1)) mode hid n u) w'"
    using commands.loop_at [OF w e(1,2) k s(1,4), where P = P and mode = mode and hid = hid and clk = clk] by (auto simp: w')
  have su: "sess u n = Some s" "heap (msgs u) (msg_set_mode s) = Some m" "conns u i = Some c"
    using u(1,2) s by (simp_all add: same_session_def)
  have "isHealthy (clk (2 * k)) s u = isHealthy (clk (2 * k)) s w"
    using s su by (intro isHealthy_cong [of _ i]) simp_all
  then show ?thesis
    using u(3) su s(2) unfolding command_one_eq [OF su(1,2) s(2)]
    by (simp add: same_session_def post_def split: if_splits)
qed

lemma flush_loop_at:
  assumes w: "reg_inv w" and k: "k < length (sessions w)" "sessions w ! k = (aid, n)" and s: "sess w n = Some s"
    "session_conn s = Some i" "conns w i = Some c" "ctx w i = Some (Some n)" "heap (msgs w) (msg_set_mode s) = Some m"
    and w': "w' = flush_loop P (sessions w) w"
  shows "sess w' n = Some (s\<lparr>pending_cmds := []\<rparr>) \<and>
    conns w' i = Some (c\<lparr>posted := posted c @ replicate (length (pending_cmds s)) (Push_frame (parser_serialize P m)) @ [Flush_close]\<rparr>)"
proof -
  note e = registry_entries [OF w k]
  obtain u where u: "same_session aid n i w u" "heap (msgs u) (msg_set_mode s) = heap (msgs w) (msg_set_mode s)"
      "same_session aid n i (flush_one P n u) w'"
    using flush.loop_at [OF w e(1,2) k s(1,4), where P = P] by (auto simp: w')
  have su: "sess u n = Some s" "heap (msgs u) (msg_set_mode s) = Some m" "conns u i = Some c"
    using u(1,2) s by (simp_all add: same_session_def)
  have "pending_msgs s \<subseteq> {msg_set_mode s}"
    using reg_inv_parts(2) [OF w s(1)] by (simp add: session_ok_def)
  from flush_one_eq [OF su(1,2) s(2) this] u(3) su(3) show ?thesis
    by (simp add: same_session_def post_def)
qed

text \<open>What the loops leave alone.\<close>

lemma command_one_keeps:
  "ctl_store (command_one P t0 t1 mode hid n w) = ctl_store w" "overload_mode (command_one P t0 t1 mode hid n w) = overload_mode w"
  "sessions (command_one P t0 t1 mode hid n w) = sessions w"
  by (simp_all add: command_one_def getSetModeMsg_def Let_def session_send_posts split: option.split prod.split)

lemma command_loop_keeps:
  "ctl_store (command_loop P clk mode hid xs w) = ctl_store w" "overload_mode (command_loop P clk mode hid xs w) = overload_mode w"
  "sessions (command_loop P clk mode hid xs w) = sessions w"
  by (induction P clk mode hid xs w rule: command_loop.induct) (simp_all add: command_one_keeps)

lemma health_loop_keeps: "ctl_store (health_loop P clk xs w) = ctl_store w"
proof (induction P clk xs w rule: health_loop.induct)
  case (2 P clk aid n rest w)
  have "ctl_store (health_one P (clk 0) (clk 1) aid n w) = ctl_store w"
    by (simp add: health_one_def checkCommandTimeouts_eq add_failures_def disconnect_posts add_active_def split: option.split)
  with "2.IH" show ?case by simp
qed simp

lemma flush_loop_keeps:
  "ctl_shutting_down (flush_loop P xs w) = ctl_shutting_down w" "accept_pending (flush_loop P xs w) = accept_pending w"
  "timer_pending (flush_loop P xs w) = timer_pending w"
proof -
  have "ctl_shutting_down (flush_one P n w) = ctl_shutting_down w" "accept_pending (flush_one P n w) = accept_pending w"
    "timer_pending (flush_one P n w) = timer_pending w" for n w
    by (simp_all add: flush_one_def flush_posts put_session_def post_on_def upd_conn_def split: option.split)
  then show "ctl_shutting_down (flush_loop P xs w) = ctl_shutting_down w" "accept_pending (flush_loop P xs w) = accept_pending w"
    "timer_pending (flush_loop P xs w) = timer_pending w"
    by (induction P xs w rule: flush_loop.induct) simp_all
qed

section \<open>The broadcast loop\<close>

text \<open>The broadcast is the loop of the session contract, each session with its reading of the clock.\<close>

lemma broadcast_loop_eq:
  "(\<And>a n. (a, n) \<in> set xs \<Longrightarrow> sess w n \<noteq> None) \<Longrightarrow>
   broadcast_loop P clk p xs w =
     tcp_session.send_healthy_all P p (zip (map clk [0..<length xs]) (map (\<lambda>x. the (sess w (snd x))) xs)) w"
proof (induction xs arbitrary: clk w)
  case (Cons x xs)
  obtain a n where x: "x = (a, n)" by force
  obtain s where s: "sess w n = Some s"
    using Cons.prems x by fastforce
  define v where "v = (if isHealthy (clk 0) s w then session_send P p s w else w)"
  have same: "sess v = sess w"
    by (simp add: v_def session_send_posts)
  have "map clk [0..<length (x # xs)] = clk 0 # map (\<lambda>k. clk (k + 1)) [0..<length xs]"
    by (simp add: upt_conv_Cons map_Suc_upt [symmetric] comp_def del: upt_Suc)
  moreover have "broadcast_loop P (\<lambda>k. clk (k + 1)) p xs v =
      tcp_session.send_healthy_all P p (zip (map (\<lambda>k. clk (k + 1)) [0..<length xs]) (map (\<lambda>x. the (sess w (snd x))) xs)) v"
    using Cons.IH [of v "\<lambda>k. clk (k + 1)"] Cons.prems unfolding same by (meson list.set_intros(2))
  moreover have "broadcast_one P (clk 0) p n w = v"
    by (simp add: broadcast_one_def s v_def)
  ultimately show ?case
    using x s by (simp only: broadcast_loop.simps list.map zip_Cons_Cons tcp_session.send_healthy_all_Cons snd_conv option.sel v_def)
qed (simp add: tcp_session.send_healthy_all_def)

lemma distinct_session_conns:
  assumes inv: "reg_inv w"
  shows "distinct (map (\<lambda>x. session_conn (the (sess w (snd x)))) (sessions w))"
proof -
  have alive: "\<exists>s i. sess w (snd x) = Some s \<and> session_id s = fst x \<and> session_conn s = Some i \<and> ctx w i = Some (Some (snd x))"
    if x: "x \<in> set (sessions w)" for x
  proof -
    obtain s where s: "sess w (snd x) = Some s" "session_id s = fst x"
      using x reg_inv_parts(1) [OF inv] prod.collapse [of x] unfolding registry_ok_def by metis
    with reg_inv_parts(2) [OF inv s(1)] show ?thesis
      by (auto simp: session_ok_def)
  qed
  have "inj_on (\<lambda>x. session_conn (the (sess w (snd x)))) (set (sessions w))"
  proof (rule inj_onI)
    fix x y assume "x \<in> set (sessions w)" "y \<in> set (sessions w)"
      "session_conn (the (sess w (snd x))) = session_conn (the (sess w (snd y)))"
    with alive [of x] alive [of y] show "x = y"
      by (auto simp: prod_eq_iff)
  qed
  moreover have "distinct (sessions w)"
    using reg_inv_parts(1) [OF inv] by (simp add: registry_ok_def distinct_map)
  ultimately show ?thesis
    by (simp add: distinct_map)
qed

end
