(* ===== verification/Fleet_Properties.thy ===== *)
theory Fleet_Properties
  imports Fleet_Loops
begin

text \<open>
  Properties of the controller in every state a run reaches: registration, message handling, health checks,
  policies, the command bus and shutdown.
\<close>

section \<open>A concrete controller\<close>

text \<open>No policy file, one accepted connection on which agent 100 has registered.\<close>

definition no_json :: "unit json_api" where
  "no_json = \<lparr>json_at = \<lambda>_ _. Inl (json_error ''''), json_items = \<lambda>_. Inl (json_error ''''), json_string = \<lambda>_. Inl (json_error ''''),
     json_float = \<lambda>_. Inl (json_error ''''), json_u32 = \<lambda>_. Inl (json_error '''')\<rparr>"

definition no_file :: "unit policy_file" where
  "no_file = \<lparr>file_exists = Inr False, file_json = Inl (json_error ''''), file_time = Inl (json_error '''')\<rparr>"

definition fresh_ctl :: Controller where
  "fresh_ctl = \<lparr>conns = Map.empty, msgs = empty_pool, tracker = new_MetricsTracker, sess = Map.empty, next_sess = 0, next_conn = 0,
        sessions = [], ctl_store = new_StateStore, policies = [], last_policy_file_time = 0, ctl_counters = [],
        overload_mode = False, ctl_shutting_down = False, accept_pending = True, timer_pending = True, metrics = new_MetricsServer\<rparr>"

definition sample_ctl :: Controller where
  "sample_ctl = snd (ctl_onMessage 0 0 0 sample_hello (accept_done 0 0 success fresh_ctl))"

definition sample_session :: AgentTcpSession where
  "sample_session = \<lparr>session_conn = Some 0, session_id = 100, last_heartbeat = 0, pending_cmds = [],
     payload_set_mode = CmdSetMode_fresh, msg_set_mode = 0, has_tracker = True\<rparr>"

lemma fresh_ctl_run: "ctl_run P no_json junk B fresh_ctl"
proof (rule ctl_new)
  show "new_Controller no_json junk no_file empty_pool = Inr fresh_ctl"
    by (simp add: new_Controller_def loadPolicies_def no_file_def startHealthCheck_def doAccept_def fresh_ctl_def)
qed

lemma accepted_simps:
  "conns (accept_done 0 0 success fresh_ctl) = [0 \<mapsto> ready_conn]"
  "lock_context 0 (accept_done 0 0 success fresh_ctl) = None"
  by (simp_all add: accept_done_def fresh_ctl_def new_AgentTcpSession_def acquire_def empty_pool_def destroy_session_def release_def
      add_active_def upd_tracker_def upd_conn_def doAccept_def ready_conn_def lock_context_def getContext_def tcp_defs new_TcpComm_def)

lemma sample_ctl_run: "ctl_run P no_json junk B sample_ctl"
proof -
  have "ctl_run P no_json junk B (accept_done 0 0 success fresh_ctl)"
    by (rule ctl_accept [OF fresh_ctl_run]) (simp add: fresh_ctl_def)
  then show ?thesis
    unfolding sample_ctl_def by (rule ctl_message [of _ _ _ _ _ 0 ready_conn]) (auto simp: accepted_simps intro: prod.collapse [symmetric])
qed

lemma sample_ctl_simps:
  "sessions sample_ctl = [(100, 0)]" "sess sample_ctl = [0 \<mapsto> sample_session]"
  "conns sample_ctl = [0 \<mapsto> setContext (Some 0) ready_conn]" "overload_mode sample_ctl = False" "ctl_counters sample_ctl = []" "ctl_shutting_down sample_ctl = False"
  "heap (msgs sample_ctl) 0 = Some (new_Message 0 CMD_SET_MODE [] 0 0 0)" "active_connections (tracker sample_ctl) = 1"
  "states (ctl_store sample_ctl) = []" "policies sample_ctl = []"
proof -
  have h: "Hello_deserialize [0, 0, 0, 100, 0, 0, 0, 1] Hello_fresh = Inr \<lparr>hello_agent_id = 100, hello_version = 1\<rparr>"
    by (simp add: Hello_deserialize_def Hello_fresh_def read_u32_be_def byte_at_def)
  show "sessions sample_ctl = [(100, 0)]" "sess sample_ctl = [0 \<mapsto> sample_session]"
    "conns sample_ctl = [0 \<mapsto> setContext (Some 0) ready_conn]" "overload_mode sample_ctl = False" "ctl_counters sample_ctl = []" "ctl_shutting_down sample_ctl = False"
    "heap (msgs sample_ctl) 0 = Some (new_Message 0 CMD_SET_MODE [] 0 0 0)" "active_connections (tracker sample_ctl) = 1"
    "states (ctl_store sample_ctl) = []" "policies sample_ctl = []"
    unfolding sample_ctl_def ctl_onMessage_def accepted_simps(2)
    by (simp_all add: h register_agent_def assign_session_def setAgentId_def sample_session_def
        accept_done_def fresh_ctl_def new_AgentTcpSession_def acquire_def empty_pool_def destroy_session_def release_def
        add_active_def upd_tracker_def upd_conn_def doAccept_def ready_conn_def tcp_defs new_TcpComm_def put_session_def new_StateStore_def
        new_MetricsTracker_def)
qed

section \<open>Properties\<close>

text \<open>C3: in every state a run of the controller reaches, the session table and the session objects correspond one to one
  under the agents' ids, every session and its connection point at each other, different sessions have different
  connections and different message objects, and each message object is a live mode command.\<close>

theorem registration_consistent:
  assumes "ctl_run P J junk B w"
  shows "distinct (map fst (sessions w)) \<and>
    (\<forall>aid n. map_of (sessions w) aid = Some n \<longleftrightarrow> (\<exists>s. sess w n = Some s \<and> session_id s = aid)) \<and>
    (\<forall>n s. sess w n = Some s \<longrightarrow>
      (\<exists>i c m. session_conn s = Some i \<and> conns w i = Some c \<and> user_context c = Some n \<and>
        msg_set_mode s \<in> live (msgs w) \<and> heap (msgs w) (msg_set_mode s) = Some m \<and> msg_type (header m) = CMD_SET_MODE)) \<and>
    (\<forall>n n' s s'. sess w n = Some s \<longrightarrow> sess w n' = Some s' \<longrightarrow> n \<noteq> n' \<longrightarrow>
      session_conn s \<noteq> session_conn s' \<and> msg_set_mode s \<noteq> msg_set_mode s')"
proof (intro conjI allI impI)
  note inv = ctl_run_inv [OF assms]
  note parts = reg_inv_parts [OF inv]
  show "distinct (map fst (sessions w))"
    using parts(1) by (simp add: registry_ok_def)
  show "map_of (sessions w) aid = Some n \<longleftrightarrow> (\<exists>s. sess w n = Some s \<and> session_id s = aid)" for aid n
    by (rule registered_iff [OF parts(1)])
  show "\<exists>i c m. session_conn s = Some i \<and> conns w i = Some c \<and> user_context c = Some n \<and>
        msg_set_mode s \<in> live (msgs w) \<and> heap (msgs w) (msg_set_mode s) = Some m \<and> msg_type (header m) = CMD_SET_MODE"
    if "sess w n = Some s" for n s
    using parts(2) [OF that] by (auto simp: session_ok_def command_msg_def ctx_def)
  fix n n' s s' assume s: "sess w n = Some s" "sess w n' = Some s'" "n \<noteq> n'"
  show "session_conn s \<noteq> session_conn s'"
    using parts(2) [OF s(1)] parts(2) [OF s(2)] s(3) by (auto simp: session_ok_def)
  show "msg_set_mode s \<noteq> msg_set_mode s'"
    using parts(3) s unfolding separate_msgs_def by blast
qed

theorem registration_consistent_witness:
  "map_of (sessions sample_ctl) 100 = Some 0 \<longleftrightarrow> (\<exists>s. sess sample_ctl 0 = Some s \<and> session_id s = 100)"
  using registration_consistent [OF sample_ctl_run] by blast

text \<open>A \<^verbatim>\<open>HELLO\<close> on a connection without a session registers the announced agent: the connection now leads to a new
  session with that id and a fresh heartbeat, an older session of the same agent is gone, and every other agent
  keeps its session.\<close>

lemma register_hello:
  assumes run: "ctl_run P J junk B w" and c: "conns w i = Some c" and new: "lock_context i w = None"
    and m: "msg_type (header m) = HELLO" "payload m = Hello_serialize hp"
    and r: "ctl_onMessage now ms i m w = (r, w')"
  shows "r = None \<and>
    (\<exists>n s. lock_context i w' = Some (n, s) \<and> map_of (sessions w') (hello_agent_id hp) = Some n \<and>
       session_id s = hello_agent_id hp \<and> session_conn s = Some i \<and> last_heartbeat s = now \<and> pending_cmds s = []) \<and>
    (\<forall>n'. map_of (sessions w) (hello_agent_id hp) = Some n' \<longrightarrow> sess w' n' = None) \<and>
    (\<forall>a n'. a \<noteq> hello_agent_id hp \<longrightarrow> map_of (sessions w) a = Some n' \<longrightarrow>
       map_of (sessions w') a = Some n' \<and> sess w' n' = sess w n')"
proof -
  let ?a = "hello_agent_id hp" and ?n = "next_sess w"
  note inv = ctl_run_inv [OF run]
  have w': "r = None" "w' = register_agent now ms i ?a w"
    using r new m hello.des_ser_any [of hp Hello_fresh] by (simp_all add: ctl_onMessage_def)
  obtain p M where acq: "acquire (new_Message ms CMD_SET_MODE [] 0 0 0) (msgs w) = (p, M)" by force
  let ?s = "\<lparr>session_conn = Some i, session_id = ?a, last_heartbeat = now, pending_cmds = [],
           payload_set_mode = CmdSetMode_fresh, msg_set_mode = p, has_tracker = True\<rparr>"
  have below: "n' < ?n" if "map_of (sessions w) a = Some n'" for a n'
    using that reg_inv_parts(2) [OF inv] by (auto simp: registered_iff [OF reg_inv_parts(1) [OF inv]] session_ok_def)
  have sess': "sess w' = (case map_of (sessions w) ?a of None \<Rightarrow> (sess w)(?n \<mapsto> ?s) | Some n' \<Rightarrow> ((sess w)(?n \<mapsto> ?s))(n' := None))"
    and sessions': "map_of (sessions w') = (map_of (sessions w))(?a \<mapsto> ?n)"
    and conn': "conns w' i = Some (setContext (Some ?n) c)"
    using c by (simp_all add: w' register_agent_def new_AgentTcpSession_def acq setAgentId_def assign_session_def Let_def
        update_conv' split: option.split)
  have "sess w' ?n = Some ?s"
    using below [of ?a] by (auto simp: sess' split: option.split)
  then have "lock_context i w' = Some (?n, ?s)"
    by (simp add: lock_context_def conn' getContext_def setContext_def)
  moreover have "sess w' n' = sess w n'" if "a \<noteq> ?a" "map_of (sessions w) a = Some n'" for a n'
  proof -
    have "map_of (sessions w) ?a \<noteq> Some n'"
      using that registered_iff [OF reg_inv_parts(1) [OF inv]] by auto
    with below [OF that(2)] show ?thesis
      by (auto simp: sess' split: option.split)
  qed
  ultimately show ?thesis
    using w'(1) sessions' by (auto simp: sess')
qed

text \<open>The health check drops exactly the unhealthy sessions: the \<open>k\<close>-th session in iteration order stays registered, with its
  pending commands checked once, if it is healthy at its own reading of the clock; otherwise its entry and its object are gone
  and its connection was asked once to close.\<close>

lemma health_check_drops_unhealthy:
  assumes run: "ctl_run P J junk B w" and k: "k < length (sessions w)" "sessions w ! k = (aid, n)" and s: "sess w n = Some s"
    and w': "w' = health_loop P clk (sessions w) w"
  shows "if isHealthy (clk (2 * k)) s w
    then map_of (sessions w') aid = Some n \<and> sess w' n = Some (s\<lparr>pending_cmds := advance_all (clk (2 * k + 1)) (pending_cmds s)\<rparr>)
    else map_of (sessions w') aid = None \<and> sess w' n = None \<and>
      (\<exists>i c. session_conn s = Some i \<and> conns w i = Some c \<and> conns w' i = Some (c\<lparr>posted := posted c @ [Close_socket]\<rparr>))"
proof -
  note inv = ctl_run_inv [OF run]
  obtain i m c where "session_conn s = Some i" "ctx w i = Some (Some n)" "conns w i = Some c"
    by (rule session_facts [OF inv s])
  with health_loop_at [OF inv k s _ _ _ w'] show ?thesis by auto
qed

text \<open>C15: a policy that fires commands every healthy agent once: the \<open>k\<close>-th session, if healthy at its reading of the clock, gets
  exactly one frame more, a mode command with the policy's mode and the next command id, which is pending from then on;
  an unhealthy session and its connection are left alone; the controller remembers the mode.\<close>

theorem policy_commands_healthy_agents:
  assumes run: "ctl_run P J junk B w"
    and fires: "condition_met avg pol" "act_command (policy_action pol) = CMD_SET_MODE"
      "overload_mode w \<noteq> (act_mode (policy_action pol) = 1)"
    and k: "k < length (sessions w)" "sessions w ! k = (aid, n)" and s: "sess w n = Some s"
    and w': "w' = apply_policy P clk avg pol w" and id: "hid = fst (getNextId CMD_SET_MODE w)"
  shows "overload_mode w' = (act_mode (policy_action pol) = 1) \<and>
    (\<exists>i c s' m. session_conn s = Some i \<and> conns w i = Some c \<and> sess w' n = Some s' \<and>
      (if isHealthy (clk (2 * k)) s w
       then map_of (pending_cmds s') hid = Some \<lparr>pc_msg = msg_set_mode s, last_send = clk (2 * k + 1), retry_count = 0\<rparr> \<and>
         conns w' i = Some (c\<lparr>posted := posted c @ [Push_frame (parser_serialize P m)]\<rparr>) \<and>
         msg_type (header m) = CMD_SET_MODE \<and> header_id (header m) = hid \<and> wf_message m \<and>
         payload m = CmdSetMode_serialize \<lparr>set_mode = act_mode (policy_action pol)\<rparr>
       else s' = s \<and> conns w' i = Some c))"
proof -
  let ?mode = "act_mode (policy_action pol)"
  let ?v = "snd (getNextId CMD_SET_MODE (w\<lparr>overload_mode := (?mode = 1)\<rparr>))"
  note inv = ctl_run_inv [OF run]
  obtain i m c where i: "session_conn s = Some i" "ctx w i = Some (Some n)" "heap (msgs w) (msg_set_mode s) = Some m"
      "msg_type (header m) = CMD_SET_MODE" "conns w i = Some c"
    by (rule session_facts [OF inv s])
  have v: "sessions ?v = sessions w" "sess ?v = sess w" "conns ?v = conns w" "msgs ?v = msgs w" "ctx ?v = ctx w" "reg_inv ?v"
    using inv by (simp_all add: getNextId_def Let_def ctx_def fun_eq_iff)
  have "fst (getNextId CMD_SET_MODE (w\<lparr>overload_mode := (?mode = 1)\<rparr>)) = hid"
    by (simp add: id getNextId_def Let_def)
  then have w'': "w' = command_loop P clk ?mode hid (sessions ?v) ?v"
    using fires by (simp add: w' apply_policy_def case_prod_beta Let_def)
  have h: "isHealthy (clk (2 * k)) s ?v = isHealthy (clk (2 * k)) s w"
    using i(1) v by (intro isHealthy_cong [of _ i]) simp_all
  have sorted: "sorted_wrt (<) (map fst (pending_cmds s))"
    using reg_inv_parts(2) [OF inv s] by (simp add: session_ok_def session_inv_def)
  have "msg_type (header (command_message ?mode hid m)) = CMD_SET_MODE" "header_id (header (command_message ?mode hid m)) = hid"
      "wf_message (command_message ?mode hid m)" "payload (command_message ?mode hid m) = CmdSetMode_serialize \<lparr>set_mode = ?mode\<rparr>"
    using i(4) by (simp_all add: command_message_def wf_message_def CmdSetMode_serialize_def)
  moreover have "overload_mode w' = (?mode = 1)"
    by (simp add: w'' command_loop_keeps getNextId_def Let_def)
  moreover have "map_of (pending_cmds (commanded ?mode hid t s)) hid = Some \<lparr>pc_msg = msg_set_mode s, last_send = t, retry_count = 0\<rparr>" for t
    using map_of_omap_insert [OF sorted] by (simp add: commanded_def)
  ultimately show ?thesis
    using command_loop_at [OF v(6), of k aid n s i c m w' P clk ?mode hid] k s i v w'' h by (auto split: if_splits)
qed

text \<open>The overload policy of the shipped configuration: above 60 percent, mode 1.\<close>

definition overload_policy :: Policy where
  "overload_policy = \<lparr>policy_name = ''overload_protection'',
     policy_condition = \<lparr>cond_metric = ''average_load'', cond_op = ''>'', cond_threshold = 0x42700000\<rparr>,
     policy_action = \<lparr>act_command = CMD_SET_MODE, act_mode = 1\<rparr>\<rparr>"

lemma overload_met: "condition_met 0x42C80000 overload_policy"
  by (simp add: condition_met_def overload_policy_def f32_less_def f32_is_nan_def f32_abs_bits_def f32_inf_bits_def f32_value_def
      f32_negative_def magnitude_def)

theorem policy_commands_healthy_agents_witness:
  "\<exists>m. conns (apply_policy (BinaryMessageParser 0) (\<lambda>k. 1000000000) 0x42C80000 overload_policy sample_ctl) 0 =
     Some ((setContext (Some 0) ready_conn)\<lparr>posted := posted (setContext (Some 0) ready_conn) @ [Push_frame (serialize m)]\<rparr>) \<and>
     payload m = [0, 0, 0, 1]"
proof -
  have "isHealthy 1000000000 sample_session sample_ctl"
    by (simp add: isHealthy_def sample_session_def sample_ctl_simps to_seconds_def tdiv_def isConnected_def setContext_def
        ready_conn_def tcp_defs new_TcpComm_def)
  then show ?thesis
    using policy_commands_healthy_agents [OF sample_ctl_run [of "BinaryMessageParser 0" HELLO] overload_met, of 0 100 0 sample_session _ "\<lambda>k. 1000000000"]
    by (auto simp: sample_ctl_simps overload_policy_def sample_session_def CmdSetMode_serialize_def write_u32_be_def)
qed

text \<open>A policy is applied once, not on every health check: applying it again while the controller is in its mode changes
  nothing, whatever the clock says.\<close>

lemma policy_applied_once:
  "condition_met avg pol \<Longrightarrow> act_command (policy_action pol) = CMD_SET_MODE \<Longrightarrow>
   apply_policy P clk' avg' pol (apply_policy P clk avg pol w) = apply_policy P clk avg pol w"
  by (simp add: apply_policy_def [of P clk avg pol w] case_prod_beta getNextId_def Let_def)
    (simp add: apply_policy_def command_loop_keeps)

text \<open>C32: one agent that reports a load which is not a number silences every policy: the average is not a number either, no
  condition holds, and the health check only drops sessions and checks timeouts.\<close>

theorem nan_load_disables_policies:
  assumes "\<exists>st \<in> snd ` set (states (ctl_store w)). f32_is_nan (state_load st)"
  shows "check_sessions P clk clk' w = health_loop P clk (sessions w) w"
proof -
  have id: "f32_is_nan avg \<Longrightarrow> policy_loop P clk avg pols v = v" for clk avg pols v
    by (induction P clk avg pols v rule: policy_loop.induct) (simp_all add: apply_policy_def nan_never_met)
  show ?thesis
    using assms by (simp add: check_sessions_def Let_def health_loop_keeps id nan_aggregate)
qed

definition nan_store :: StateStore where
  "nan_store = \<lparr>states = [(100, \<lparr>state_mode = 0, state_load = f32_nan, state_temp = 0, state_last_rc = 0\<rparr>)]\<rparr>"

theorem nan_load_disables_policies_witness:
  "check_sessions (BinaryMessageParser 0) (\<lambda>k. 0) (\<lambda>j k. 0) (sample_ctl\<lparr>ctl_store := nan_store, policies := [overload_policy]\<rparr>) =
   health_loop (BinaryMessageParser 0) (\<lambda>k. 0) (sessions (sample_ctl\<lparr>ctl_store := nan_store, policies := [overload_policy]\<rparr>))
     (sample_ctl\<lparr>ctl_store := nan_store, policies := [overload_policy]\<rparr>)"
  by (rule nan_load_disables_policies) (simp add: nan_store_def)

text \<open>C33: dropping an unhealthy session is counted twice: the health check lowers the number of active connections, and the error
  handler lowers it again when the read of the closed connection fails.\<close>

theorem dropped_connection_counted_twice:
  assumes run: "ctl_run P J junk B w" and s: "sess w n = Some s" "session_id s = aid" "session_conn s = Some i"
    and sick: "\<not> isHealthy t0 s w"
  shows "active_connections (tracker (ctl_error_handler i operation_aborted (health_one P t0 t1 aid n w))) =
    active_connections (tracker w) - 2"
proof -
  note inv = ctl_run_inv [OF run]
  have "map_of (sessions w) aid = Some n"
    using registered_iff [OF reg_inv_parts(1) [OF inv]] s by blast
  then have "active_connections (tracker (health_one P t0 t1 aid n w)) = active_connections (tracker w) - 1"
    using sick by (simp add: health_one_eq [OF s(1)] add_active_def)
  then show ?thesis
    by (simp add: ctl_error_handler_def add_active_def Let_def split: option.split)
qed

theorem dropped_connection_counted_twice_witness:
  "active_connections (tracker (ctl_error_handler 0 operation_aborted
     (health_one (BinaryMessageParser 0) 3000000000 3000000000 100 0 sample_ctl))) = - 1"
  using dropped_connection_counted_twice [OF sample_ctl_run [of "BinaryMessageParser 0" HELLO], of 0 sample_session 100 0 3000000000 3000000000]
  by (simp add: sample_ctl_simps isHealthy_def sample_session_def to_seconds_def tdiv_def)

text \<open>Broadcasting hands the frame to exactly the healthy sessions: the connection of the \<open>k\<close>-th session gets one frame more
  if it is healthy at its reading of the clock, and nothing otherwise.\<close>

lemma broadcast_reaches_healthy_agents:
  assumes run: "ctl_run P J junk B w" and k: "k < length (sessions w)" "sessions w ! k = (aid, n)"
    and s: "sess w n = Some s" "session_conn s = Some i" and m: "heap (msgs w) p = Some m"
  shows "backlog (broadcastCommand P clk p w) i =
    backlog w i @ (if isHealthy (clk k) s w then [Push_frame (parser_serialize P m)] else [])"
proof -
  note inv = ctl_run_inv [OF run]
  let ?ss = "map (\<lambda>x. the (sess w (snd x))) (sessions w)"
  let ?tss = "zip (map clk [0..<length (sessions w)]) ?ss"
  have "sess w n' \<noteq> None" if "(a, n') \<in> set (sessions w)" for a n'
    using that reg_inv_parts(1) [OF inv] by (auto simp: registry_ok_def)
  then have b: "broadcastCommand P clk p w = tcp_session.send_healthy_all P p ?tss w"
    by (simp add: broadcastCommand_def broadcast_loop_eq)
  have d: "distinct (map session_conn ?ss)"
    using distinct_session_conns [OF inv] by (simp add: comp_def)
  have sk: "?ss ! k = s" using k s by simp
  have "(\<exists>(t, s') \<in> set ?tss. session_conn s' = Some i \<and> isHealthy t s' w) \<longleftrightarrow> isHealthy (clk k) s w"
  proof
    assume "\<exists>(t, s') \<in> set ?tss. session_conn s' = Some i \<and> isHealthy t s' w"
    then obtain j where j: "j < length (sessions w)" "session_conn (?ss ! j) = Some i" "isHealthy (clk j) (?ss ! j) w"
      by (auto simp: set_zip)
    then have "map session_conn ?ss ! j = map session_conn ?ss ! k"
      using k(1) s(2) sk by simp
    then have "j = k"
      using d j(1) k(1) nth_eq_iff_index_eq [of "map session_conn ?ss" j k] by simp
    with j sk show "isHealthy (clk k) s w" by simp
  next
    have "?tss ! k \<in> set ?tss"
      using k(1) by (intro nth_mem) simp
    moreover have "?tss ! k = (clk k, s)"
      using k(1) sk by simp
    moreover assume "isHealthy (clk k) s w"
    ultimately show "\<exists>(t, s') \<in> set ?tss. session_conn s' = Some i \<and> isHealthy t s' w"
      using s(2) by (intro bexI [of _ "?tss ! k"]) simp_all
  qed
  moreover have "distinct (map (session_conn \<circ> snd) ?tss)"
    using d by (simp flip: map_map)
  ultimately show ?thesis
    using tcp_session.send_healthy_all_backlog [of ?tss P p w i] m by (simp add: b send_tasks_def)
qed

text \<open>Loading the policy file is all or nothing: either the policies are those the whole file describes, or the old ones stay
  and so does the recorded file time, so the file is tried again at the next health check. Nothing else changes.\<close>

lemma policy_reload_all_or_nothing:
  assumes "loadPolicies J junk f w = Inr w'"
  shows "w' = w\<lparr>policies := policies w', last_policy_file_time := last_policy_file_time w'\<rparr> \<and>
    (read_policies J junk f = Inr (policies w') \<or> policies w' = policies w \<and> last_policy_file_time w' = last_policy_file_time w)"
  using assms by (auto simp: loadPolicies_def Let_def split: sum.splits bool.splits if_splits)

text \<open>A policy whose command string is not recognised keeps whatever the uninitialised command field held; if that happens to
  be the code of \<^verbatim>\<open>CMD_SET_MODE\<close>, the policy acts as a mode command.\<close>

lemma unknown_command_uninitialised:
  assumes "parse_policy J junk p = Inr pol" "json_at J p ''action'' = Inr a" "json_at J a ''command'' = Inr x"
    "json_string J x = Inr cmd_str"
  shows "act_command (policy_action pol) = (if cmd_str = ''CMD_SET_MODE'' then CMD_SET_MODE else junk)"
  using assms by (auto simp: parse_policy_def err_simps Let_def)

end
