(* ===== verification/Fleet_Roster.thy ===== *)
theory Fleet_Roster
  imports Fleet_Properties
begin

text \<open>
  What is seen of the registered agents, without the session objects, weak contexts and message pool behind them: \<open>pulse\<close> maps an
  agent to its connection and the time of its last heartbeat, \<open>roster\<close> to its connection alone. Here: which
  operations leave them alone, and how a connection with a session corresponds to an agent of the roster.
\<close>

section \<open>Registered agents\<close>

text \<open>Per agent, the connection of its session and the time of its last heartbeat.\<close>

definition vitals :: "AgentTcpSession \<Rightarrow> (nat \<times> time_point) option" where
  "vitals s = map_option (\<lambda>i. (i, last_heartbeat s)) (session_conn s)"

definition pulse :: "Controller \<Rightarrow> u32 \<rightharpoonup> nat \<times> time_point" where
  "pulse w = (\<lambda>aid. Option.bind (Option.bind (map_of (sessions w) aid) (sess w)) vitals)"

lemma pulse_simps [simp]:
  "pulse (upd_conn i f w) = pulse w" "pulse (post_on cn ts w) = pulse w" "pulse (upd_tracker g w) = pulse w"
  "pulse (add_active d w) = pulse w" "pulse (add_failures k w) = pulse w" "pulse (w\<lparr>msgs := ms\<rparr>) = pulse w"
  "pulse (w\<lparr>ctl_store := x\<rparr>) = pulse w" "pulse (w\<lparr>overload_mode := y\<rparr>) = pulse w" "pulse (w\<lparr>ctl_counters := z\<rparr>) = pulse w"
  "pulse (w\<lparr>ctl_shutting_down := b, metrics := v\<rparr>) = pulse w"
  by (simp_all add: pulse_def add_active_def add_failures_def)

lemma pulse_put:
  assumes "sess w n = Some s" "session_conn s' = session_conn s" "last_heartbeat s' = last_heartbeat s"
  shows "pulse (put_session n s' w) = pulse w"
proof
  show "pulse (put_session n s' w) aid = pulse w aid" for aid
    using assms by (cases "map_of (sessions w) aid") (auto simp: pulse_def vitals_def)
qed

lemma pulse_erase:
  assumes inv: "reg_inv w"
  shows "pulse (erase_session aid w) = (pulse w)(aid := None)"
proof
  fix a
  show "pulse (erase_session aid w) a = ((pulse w)(aid := None)) a"
  proof (cases "a = aid \<or> map_of (sessions w) a = None \<or> map_of (sessions w) aid = None")
    case True
    then show ?thesis
      by (auto simp: pulse_def delete_conv' erase_session_def delete_missing split: option.split)
  next
    case False
    then obtain n k where n: "map_of (sessions w) a = Some n" "map_of (sessions w) aid = Some k" by auto
    with False have "n \<noteq> k"
      using registered_iff [OF reg_inv_parts(1) [OF inv]] by fastforce
    with n False show ?thesis
      by (simp add: pulse_def delete_conv')
  qed
qed

lemma pulse_register:
  assumes inv: "reg_inv w"
  shows "pulse (register_agent now ms i aid w) = (pulse w)(aid \<mapsto> (i, now))"
proof
  fix a
  let ?w = "register_agent now ms i aid w" and ?n = "next_sess w"
  obtain p M where acq: "acquire (new_Message ms CMD_SET_MODE [] 0 0 0) (msgs w) = (p, M)" by force
  let ?s = "\<lparr>session_conn = Some i, session_id = aid, last_heartbeat = now, pending_cmds = [],
           payload_set_mode = CmdSetMode_fresh, msg_set_mode = p, has_tracker = True\<rparr>"
  have below: "n < ?n" if "map_of (sessions w) b = Some n" for b n
    using that reg_inv_parts(2) [OF inv] by (auto simp: registered_iff [OF reg_inv_parts(1) [OF inv]] session_ok_def)
  have sess': "sess ?w = (case map_of (sessions w) aid of None \<Rightarrow> (sess w)(?n \<mapsto> ?s) | Some n' \<Rightarrow> ((sess w)(?n \<mapsto> ?s))(n' := None))"
    and sessions': "map_of (sessions ?w) = (map_of (sessions w))(aid \<mapsto> ?n)"
    by (simp_all add: register_agent_def new_AgentTcpSession_def acq setAgentId_def assign_session_def Let_def update_conv'
        split: option.split)
  show "pulse ?w a = ((pulse w)(aid \<mapsto> (i, now))) a"
  proof (cases "a = aid")
    case True
    then show ?thesis
      using below [of aid] by (auto simp: pulse_def vitals_def sess' sessions' split: option.split)
  next
    case False
    then have "map_of (sessions w) aid \<noteq> Some n" if "map_of (sessions w) a = Some n" for n
      using that registered_iff [OF reg_inv_parts(1) [OF inv]] by auto
    with False below [of a] show ?thesis
      by (cases "map_of (sessions w) a") (auto simp: pulse_def vitals_def sess' sessions' split: option.split)
  qed
qed

lemma pulse_commands [simp]: "pulse (command_loop P clk mode hid xs w) = pulse w"
proof (induction P clk mode hid xs w rule: command_loop.induct)
  case (2 P clk mode hid aid n rest w)
  have "pulse (command_one P t0 t1 mode hid n w) = pulse w" for t0 t1
  proof (cases "sess w n")
    case (Some s)
    obtain p s' w' where g: "getSetModeMsg mode hid s w = (p, s', w')"
      using prod_cases3 by blast
    then have v: "sess w' = sess w" "pulse w' = pulse w" "session_conn s' = session_conn s" "last_heartbeat s' = last_heartbeat s"
      by (auto simp: getSetModeMsg_def Let_def split: option.splits)
    have "session_conn (trackCommand t1 p s' w') = session_conn s" "last_heartbeat (trackCommand t1 p s' w') = last_heartbeat s"
      using v(3,4) by (simp_all add: trackCommand_def split: option.split)
    then have "pulse (put_session n (trackCommand t1 p s' w') (session_send P p (trackCommand t1 p s' w') w')) = pulse w"
      using Some v by (subst pulse_put [of _ n s]) (simp_all add: session_send_posts)
    with Some g show ?thesis
      by (simp add: command_one_def Let_def)
  qed (simp add: command_one_def)
  with 2 show ?case by simp
qed simp

lemma pulse_policies [simp]: "pulse (policy_loop P clk avg pols w) = pulse w"
proof (induction P clk avg pols w rule: policy_loop.induct)
  case (2 P clk avg pol pols w)
  have "pulse (apply_policy P (clk 0) avg pol w) = pulse w"
    by (simp add: apply_policy_def getNextId_def Let_def)
  with 2 show ?case by simp
qed simp

lemma pulse_flush [simp]: "pulse (flush_loop P xs w) = pulse w"
proof (induction P xs w rule: flush_loop.induct)
  case (2 P aid n rest w)
  have "pulse (flush_one P n w) = pulse w"
    by (auto simp: flush_one_def flush_posts split: option.split intro!: trans [OF pulse_put])
  with 2 show ?case by simp
qed simp

lemma pulse_broadcast [simp]: "pulse (broadcast_loop P clk p xs w) = pulse w"
proof (induction P clk p xs w rule: broadcast_loop.induct)
  case (2 P clk p aid n rest w)
  have "pulse (broadcast_one P (clk 0) p n w) = pulse w"
    by (simp add: broadcast_one_def session_send_posts split: option.split)
  with 2 show ?case by simp
qed simp

section \<open>The roster\<close>

type_synonym roster = "u32 \<rightharpoonup> nat"

text \<open>The roster of a controller.\<close>

definition roster :: "Controller \<Rightarrow> roster" where
  "roster w = (\<lambda>aid. Option.bind (Option.bind (map_of (sessions w) aid) (sess w)) session_conn)"

lemma roster_eq: "roster w = (\<lambda>aid. map_option fst (pulse w aid))"
  by (auto simp: roster_def pulse_def vitals_def fun_eq_iff option.map_comp o_def option.map_ident
      split: Option.bind_splits)

lemma roster_simps [simp]:
  "roster (upd_conn i f w) = roster w" "roster (post_on cn ts w) = roster w" "roster (upd_tracker g w) = roster w"
  "roster (add_active d w) = roster w" "roster (add_failures k w) = roster w" "roster (w\<lparr>msgs := ms\<rparr>) = roster w"
  "roster (w\<lparr>ctl_store := x\<rparr>) = roster w" "roster (w\<lparr>overload_mode := y\<rparr>) = roster w" "roster (w\<lparr>ctl_counters := z\<rparr>) = roster w"
  "roster (w\<lparr>ctl_shutting_down := b, metrics := v\<rparr>) = roster w"
  by (simp_all add: roster_eq)

lemma roster_Some_iff:
  "roster w aid = Some i \<longleftrightarrow> (\<exists>n s. map_of (sessions w) aid = Some n \<and> sess w n = Some s \<and> session_conn s = Some i)"
  by (simp add: roster_def bind_eq_Some_conv)

text \<open>A connection has a session exactly if an agent uses it.\<close>

lemma locked_iff:
  assumes inv: "reg_inv w"
  shows "lock_context i w = Some (n, s) \<longleftrightarrow> sess w n = Some s \<and> session_conn s = Some i"
proof
  assume l: "lock_context i w = Some (n, s)"
  then show "sess w n = Some s \<and> session_conn s = Some i"
    using lock_context_sess [OF l] reg_inv_parts(4) [OF inv] by (simp add: contexts_ok_def)
next
  assume s: "sess w n = Some s \<and> session_conn s = Some i"
  with reg_inv_parts(2) [OF inv, of n s] show "lock_context i w = Some (n, s)"
    by (auto simp: session_ok_def lock_context_def ctx_def getContext_def)
qed

lemma roster_locked:
  assumes inv: "reg_inv w" and l: "lock_context i w = Some (n, s)"
  shows "roster w aid = Some i \<longleftrightarrow> aid = session_id s"
proof
  note s = l [unfolded locked_iff [OF inv]]
  assume "roster w aid = Some i"
  then obtain n' s' where "map_of (sessions w) aid = Some n'" "lock_context i w = Some (n', s')"
    by (auto simp: roster_Some_iff locked_iff [OF inv])
  with l registered_iff [OF reg_inv_parts(1) [OF inv]] s show "aid = session_id s"
    by auto
next
  note s = l [unfolded locked_iff [OF inv]]
  assume "aid = session_id s"
  with s show "roster w aid = Some i"
    using registered_iff [OF reg_inv_parts(1) [OF inv], of aid n] by (auto simp: roster_Some_iff)
qed

lemma unlocked_iff:
  assumes inv: "reg_inv w"
  shows "lock_context i w = None \<longleftrightarrow> i \<notin> ran (roster w)"
proof
  assume "lock_context i w = None"
  then have "\<not> (sess w n = Some s \<and> session_conn s = Some i)" for n s
    using locked_iff [OF inv, of i n s] by simp
  then show "i \<notin> ran (roster w)"
    by (auto simp: ran_def roster_Some_iff)
next
  assume i: "i \<notin> ran (roster w)"
  show "lock_context i w = None"
  proof (rule ccontr)
    assume "lock_context i w \<noteq> None"
    then obtain n s where "lock_context i w = Some (n, s)" by auto
    then have "roster w (session_id s) = Some i"
      using roster_locked [OF inv] by blast
    with i show False by (auto simp: ran_def)
  qed
qed

lemma roster_erase:
  assumes inv: "reg_inv w"
  shows "roster (erase_session aid w) = (roster w)(aid := None)"
  by (simp add: roster_eq pulse_erase [OF inv] fun_eq_iff)

text \<open>The loops: a health check only removes agents, commands and flushes keep every one.\<close>

lemma roster_health_one:
  assumes "reg_inv w" "(aid, n) \<in> set (sessions w)"
  shows "roster (health_one P t0 t1 aid n w) \<subseteq>\<^sub>m roster w"
proof -
  obtain s where s: "sess w n = Some s" "map_of (sessions w) aid = Some n"
    using assms reg_inv_parts(1) [OF assms(1)] by (auto simp: registry_ok_def)
  let ?v = "add_active (- 1) (post_on (session_conn s) [Close_socket] w)"
  have "roster (erase_session aid ?v) = (roster w)(aid := None)"
    using roster_erase [of ?v aid] assms(1) by simp
  moreover have "roster (put_session n (fst (checkCommandTimeouts P t1 s w)) (snd (checkCommandTimeouts P t1 s w))) = roster w"
    using pulse_put [of "snd (checkCommandTimeouts P t1 s w)" n s "fst (checkCommandTimeouts P t1 s w)"] s(1)
    by (simp add: roster_eq checkCommandTimeouts_eq add_failures_def)
  ultimately show ?thesis
    unfolding health_one_eq [OF s] by (auto simp: map_le_def)
qed

lemma roster_health:
  "reg_inv w \<Longrightarrow> distinct (map fst xs) \<Longrightarrow> set xs \<subseteq> set (sessions w) \<Longrightarrow> roster (health_loop P clk xs w) \<subseteq>\<^sub>m roster w"
proof (induction P clk xs w rule: health_loop.induct)
  case (2 P clk aid n rest w)
  let ?w = "health_one P (clk 0) (clk 1) aid n w"
  have w: "reg_inv ?w" "set (sessions w) - {(aid, n)} \<subseteq> set (sessions ?w)" "roster ?w \<subseteq>\<^sub>m roster w"
    using health_one_sessions [of w aid n] roster_health_one [of w aid n] "2.prems" by simp_all
  have "(aid, n) \<notin> set rest"
    using "2.prems"(2) by force
  then have "roster (health_loop P (\<lambda>k. clk (k + 2)) rest ?w) \<subseteq>\<^sub>m roster ?w"
    using "2.IH" "2.prems"(2,3) w by (simp del: One_nat_def) blast
  with w(3) show ?case
    using map_le_trans by (simp del: One_nat_def) blast
qed simp

lemma roster_loops [simp]:
  "roster (command_loop P clk mode hid xs w) = roster w" "roster (policy_loop P pclk avg pols w) = roster w"
  "roster (flush_loop P xs w) = roster w" "roster (broadcast_loop P clk p xs w) = roster w"
  by (simp_all add: roster_eq)

lemma roster_check:
  assumes inv: "reg_inv w"
  shows "roster (check_sessions P clk clk' w) \<subseteq>\<^sub>m roster w"
  using roster_health [OF inv, of "sessions w" P clk] reg_inv_parts(1) [OF inv]
  by (simp add: check_sessions_def Let_def registry_ok_def)

lemma roster_inj:
  assumes inv: "reg_inv w"
  shows "inj_on (roster w) (dom (roster w))"
proof (rule inj_onI)
  fix a b assume "a \<in> dom (roster w)" "b \<in> dom (roster w)" "roster w a = roster w b"
  then obtain i where i: "roster w a = Some i" "roster w b = Some i" by auto
  then have "i \<in> ran (roster w)"
    by (auto simp: ran_def)
  then have "lock_context i w \<noteq> None"
    using unlocked_iff [OF inv, of i] by blast
  then obtain n s where l: "lock_context i w = Some (n, s)" by auto
  show "a = b"
    using i by (simp add: roster_locked [OF inv l])
qed

end
