(* ===== verification/Fleet_Agent.thy ===== *)
theory Fleet_Agent
  imports Tcp_Comm Payloads
begin

text \<open>
  \<^verbatim>\<open>src/agent/Agent.cpp\<close>: connecting with retries, the periodic heartbeat and state reports, the handling of commands with
  duplicate detection, and shutdown. The five messages the agent reuses are owned by it alone and encoded at the moment
  they are sent, so they are values here; the payload members are only scratch space for them.

  The agent has one timer for reports and for reconnecting. \<^verbatim>\<open>expires_after\<close> and \<^verbatim>\<open>cancel\<close> abort a wait that has not
  expired (its handler then does nothing); a wait that has expired is queued and its handler runs with success, even if
  the timer is set or cancelled before that.
\<close>

section \<open>State\<close>

datatype timer_wait = Report | Retry

record Agent = io_world +
  agent_conn :: "nat option"
  agent_next_conn :: nat
  connecting :: bool
  waiting :: "timer_wait option"
  expired :: "timer_wait list"
  self_id :: u32
  current_mode :: u32
  last_cmd_rc :: i32
  agent_shutting_down :: bool
  host :: string
  port :: string
  agent_retries :: nat
  cmd_set_mode_header_id :: u32
  msg_hello :: Message
  msg_hb :: Message
  msg_state :: Message
  msg_ack :: Message
  msg_nack :: Message
  agent_counters :: "(MessageType \<times> u32) list"

definition MAX_RETRIES :: nat where
  "MAX_RETRIES = 3"

text \<open>The constructor; the clock is read once per message.\<close>

definition new_Agent :: "u64 \<Rightarrow> u64 \<Rightarrow> u64 \<Rightarrow> u64 \<Rightarrow> u64 \<Rightarrow> u32 \<Rightarrow> Agent" where
  "new_Agent t1 t2 t3 t4 t5 aid =
     \<lparr>conns = Map.empty, agent_conn = None, agent_next_conn = 0, connecting = False, waiting = None, expired = [],
      self_id = aid, current_mode = 0, last_cmd_rc = 0, agent_shutting_down = False, host = '''', port = '''',
      agent_retries = 0, cmd_set_mode_header_id = 0xFFFFFFFF,
      msg_hello = new_Message t1 HELLO [] 0 0 0, msg_hb = new_Message t2 HEARTBEAT [] 0 0 0,
      msg_state = new_Message t3 STATE [] 0 0 0, msg_ack = new_Message t4 ACK [] 0 0 0,
      msg_nack = new_Message t5 NACK [] 0 0 0, agent_counters = []\<rparr>"

section \<open>Sending\<close>

definition getNextHeaderId :: "MessageType \<Rightarrow> Agent \<Rightarrow> u32 \<times> Agent" where
  "getNextHeaderId ty a =
     (let v = (case map_of (agent_counters a) ty of None \<Rightarrow> 0 | Some v \<Rightarrow> v)
      in (v, a\<lparr>agent_counters := AList.update ty (v + 1) (agent_counters a)\<rparr>))"

text \<open>The five assignments every sender makes to its message.\<close>

definition fill_message :: "bytes \<Rightarrow> u32 \<Rightarrow> u32 \<Rightarrow> u64 \<Rightarrow> Message \<Rightarrow> Message" where
  "fill_message pl aid hid now_ms m =
     m\<lparr>payload := pl,
       header := (header m)\<lparr>agent_id := aid, header_id := hid, timestamp := now_ms, payload_len := word_of_nat (length pl)\<rparr>\<rparr>"

text \<open>\<^verbatim>\<open>conn_->send(msg)\<close> without a test, and with one.\<close>

definition send_unchecked :: "IMessageParser \<Rightarrow> Message \<Rightarrow> Agent \<Rightarrow> exn + Agent" where
  "send_unchecked P m a =
     (case agent_conn a of
        None \<Rightarrow> Inl null_deref
      | Some i \<Rightarrow> Inr (upd_conn i (tcp_send P m) a))"

definition send_if_connected :: "IMessageParser \<Rightarrow> Message \<Rightarrow> Agent \<Rightarrow> Agent" where
  "send_if_connected P m a =
     (case agent_conn a of
        None \<Rightarrow> a
      | Some i \<Rightarrow> upd_conn i (tcp_send P m) a)"

definition sendHello :: "IMessageParser \<Rightarrow> u64 \<Rightarrow> Agent \<Rightarrow> exn + Agent" where
  "sendHello P now_ms a =
     (let pl = Hello_serialize (new_HelloPayload (self_id a) 1);
          (hid, a) = getNextHeaderId HELLO a;
          m = fill_message pl (self_id a) hid now_ms (msg_hello a)
      in send_unchecked P m (a\<lparr>msg_hello := m\<rparr>))"

definition sendAck :: "IMessageParser \<Rightarrow> u64 \<Rightarrow> u32 \<Rightarrow> Agent \<Rightarrow> Agent" where
  "sendAck P now_ms cmd_id a =
     (let pl = Ack_serialize (new_AckPayload cmd_id);
          (hid, a) = getNextHeaderId ACK a;
          m = fill_message pl (self_id a) hid now_ms (msg_ack a)
      in send_if_connected P m (a\<lparr>msg_ack := m\<rparr>))"

definition sendNack :: "IMessageParser \<Rightarrow> u64 \<Rightarrow> u32 \<Rightarrow> string \<Rightarrow> Agent \<Rightarrow> Agent" where
  "sendNack P now_ms cmd_id reason a =
     (let pl = Nack_serialize (new_NackPayload cmd_id reason);
          (hid, a) = getNextHeaderId NACK a;
          m = fill_message pl (self_id a) hid now_ms (msg_nack a)
      in send_if_connected P m (a\<lparr>msg_nack := m\<rparr>))"

section \<open>Timer and connection\<close>

definition set_timer :: "timer_wait \<Rightarrow> Agent \<Rightarrow> Agent" where
  "set_timer t a = a\<lparr>waiting := Some t\<rparr>"

definition startReporting :: "Agent \<Rightarrow> Agent" where
  "startReporting a = (if agent_shutting_down a then a else set_timer Report a)"

text \<open>\<^verbatim>\<open>start\<close>: \<open>resolved\<close> is the outcome of the synchronous name resolution, which may throw.\<close>

definition agent_start :: "exn + unit \<Rightarrow> string \<Rightarrow> string \<Rightarrow> Agent \<Rightarrow> exn + Agent" where
  "agent_start resolved h p a =
     (let a = a\<lparr>host := h, port := p\<rparr>
      in ebind resolved (\<lambda>_. Inr (a\<lparr>connecting := True\<rparr>)))"

definition handleConnectionError :: "Agent \<Rightarrow> Agent" where
  "handleConnectionError a =
     (let a = (case agent_conn a of
                 None \<Rightarrow> a
               | Some i \<Rightarrow> (upd_conn i tcp_disconnect a)\<lparr>agent_conn := None\<rparr>)
      in if agent_retries a < MAX_RETRIES
         then set_timer Retry (a\<lparr>agent_retries := agent_retries a + 1\<rparr>)
         else a)"

definition agent_error_handler :: "Agent ErrorHandler" where
  "agent_error_handler i ec a = handleConnectionError a"

text \<open>The completion of \<^verbatim>\<open>async_connect\<close>.\<close>

definition connect_done :: "IMessageParser \<Rightarrow> u64 \<Rightarrow> error_code \<Rightarrow> Agent \<Rightarrow> exn + Agent" where
  "connect_done P now_ms ec a =
     (let a = a\<lparr>connecting := False\<rparr>
      in if ec = success then
           (let a = a\<lparr>agent_retries := 0\<rparr>;
                i = agent_next_conn a;
                a = a\<lparr>conns := (conns a)(i \<mapsto> new_TcpComm True), agent_next_conn := Suc i, agent_conn := Some i\<rparr>;
                a = upd_conn i setMessageHandler a;
                a = upd_conn i setErrorHandler a;
                a = upd_conn i tcp_start a
            in ebind (sendHello P now_ms a) (\<lambda>a. Inr (startReporting a)))
         else Inr (handleConnectionError a))"

text \<open>\<^verbatim>\<open>45.0f\<close>, the temperature every agent reports.\<close>

definition temp_45 :: f32 where
  "temp_45 = 0x42340000"

text \<open>The report handler; \<open>load\<close> is the random load, \<open>t1\<close> and \<open>t2\<close> the clock readings of the two messages.\<close>

definition report_done :: "IMessageParser \<Rightarrow> f32 \<Rightarrow> u64 \<Rightarrow> u64 \<Rightarrow> error_code \<Rightarrow> Agent \<Rightarrow> exn + Agent" where
  "report_done P load t1 t2 ec a =
     (if ec = success then
        (let mode = current_mode a;
             (hid, a) = getNextHeaderId HEARTBEAT a;
             m = fill_message (Heartbeat_serialize ()) (self_id a) hid t1 (msg_hb a)
         in ebind (send_unchecked P m (a\<lparr>msg_hb := m\<rparr>)) (\<lambda>a.
         let pl = State_serialize (new_StatePayload mode load temp_45 (last_cmd_rc a));
             (hid, a) = getNextHeaderId STATE a;
             m = fill_message pl (self_id a) hid t2 (msg_state a)
         in ebind (send_unchecked P m (a\<lparr>msg_state := m\<rparr>)) (\<lambda>a.
         Inr (startReporting a))))
      else Inr a)"

text \<open>The retry handler.\<close>

definition retry_done :: "exn + unit \<Rightarrow> error_code \<Rightarrow> Agent \<Rightarrow> exn + Agent" where
  "retry_done resolved ec a = (if ec = success then agent_start resolved (host a) (port a) a else Inr a)"

section \<open>Commands\<close>

definition agent_onMessage :: "IMessageParser \<Rightarrow> u64 \<Rightarrow> Agent MessageHandler" where
  "agent_onMessage P now_ms i m a =
     (if msg_type (header m) = CMD_SET_MODE then
        if header_id (header m) = cmd_set_mode_header_id a
        then (None, sendNack P now_ms (header_id (header m)) ''Duplicate CMD_SET_MODE command'' a)
        else
          (let a = a\<lparr>cmd_set_mode_header_id := header_id (header m)\<rparr>
           in case CmdSetMode_deserialize (payload m) CmdSetMode_fresh of
                Inl e \<Rightarrow>
                  if is_exception e then (None, sendNack P now_ms (header_id (header m)) (what e) (a\<lparr>last_cmd_rc := - 1\<rparr>))
                  else (Some e, a)
              | Inr pl \<Rightarrow> (None, sendAck P now_ms (header_id (header m)) (a\<lparr>current_mode := set_mode pl, last_cmd_rc := 0\<rparr>)))
      else (None, sendNack P now_ms (header_id (header m)) ''Unknown message type'' a))"

definition getCurrentMode :: "Agent \<Rightarrow> u32" where
  "getCurrentMode a = current_mode a"

section \<open>Shutdown\<close>

definition shutdownAgent :: "Agent \<Rightarrow> Agent" where
  "shutdownAgent a =
     (if agent_shutting_down a then a
      else
        (let a = a\<lparr>agent_shutting_down := True, waiting := None\<rparr>
         in case agent_conn a of None \<Rightarrow> a | Some i \<Rightarrow> upd_conn i flushAndDisconnect a))"

definition agent_signal_done :: "error_code \<Rightarrow> Agent \<Rightarrow> Agent" where
  "agent_signal_done ec a = (if ec = success then shutdownAgent a else a)"

section \<open>Answers\<close>

lemma reply_simps [simp]:
  "current_mode (sendAck P t c a) = current_mode a" "current_mode (sendNack P t c r a) = current_mode a"
  "last_cmd_rc (sendAck P t c a) = last_cmd_rc a" "last_cmd_rc (sendNack P t c r a) = last_cmd_rc a"
  "cmd_set_mode_header_id (sendAck P t c a) = cmd_set_mode_header_id a"
  "cmd_set_mode_header_id (sendNack P t c r a) = cmd_set_mode_header_id a"
  "agent_conn (sendAck P t c a) = agent_conn a" "agent_conn (sendNack P t c r a) = agent_conn a"
  by (simp_all add: sendAck_def sendNack_def getNextHeaderId_def send_if_connected_def upd_conn_def Let_def split: option.split)

lemma fill_message_simps [simp]:
  "msg_type (header (fill_message pl aid hid t m)) = msg_type (header m)" "payload (fill_message pl aid hid t m) = pl"
  "header_id (header (fill_message pl aid hid t m)) = hid" "agent_id (header (fill_message pl aid hid t m)) = aid"
  by (simp_all add: fill_message_def)

lemma wf_fill_message: "length pl < 2 ^ 32 - 27 \<Longrightarrow> wf_message (fill_message pl aid hid t m)"
  by (simp add: wf_message_def fill_message_def unat_of_nat)

text \<open>A reply is one frame more in the queue of the current connection.\<close>

lemma sendAck_posts:
  assumes "agent_conn a = Some i" "conns a i = Some c" "msg_type (header (msg_ack a)) = ACK"
  shows "\<exists>m. conns (sendAck P t cid a) i = Some (c\<lparr>posted := posted c @ [Push_frame (parser_serialize P m)]\<rparr>) \<and>
    msg_type (header m) = ACK \<and> payload m = Ack_serialize \<lparr>ack_cmd_id = cid\<rparr> \<and> wf_message m"
  using assms
  by (simp add: sendAck_def getNextHeaderId_def send_if_connected_def tcp_send_def Let_def)
    (auto intro!: exI [of _ "fill_message _ _ _ _ (msg_ack a)"] wf_fill_message simp: Ack_serialize_def)

lemma sendNack_posts:
  assumes "agent_conn a = Some i" "conns a i = Some c" "msg_type (header (msg_nack a)) = NACK" "length reason < 1000"
  shows "\<exists>m. conns (sendNack P t cid reason a) i = Some (c\<lparr>posted := posted c @ [Push_frame (parser_serialize P m)]\<rparr>) \<and>
    msg_type (header m) = NACK \<and> payload m = Nack_serialize \<lparr>nack_cmd_id = cid, nack_reason = reason\<rparr> \<and> wf_message m"
  using assms
  by (simp add: sendNack_def getNextHeaderId_def send_if_connected_def tcp_send_def Let_def)
    (auto intro!: exI [of _ "fill_message _ _ _ _ (msg_nack a)"] wf_fill_message simp: Nack_serialize_def)

section \<open>Invariant and runs\<close>

definition agent_inv :: "Agent \<Rightarrow> bool" where
  "agent_inv a \<longleftrightarrow>
     msg_type (header (msg_hello a)) = HELLO \<and> msg_type (header (msg_hb a)) = HEARTBEAT \<and> msg_type (header (msg_state a)) = STATE \<and>
     msg_type (header (msg_ack a)) = ACK \<and> msg_type (header (msg_nack a)) = NACK \<and> agent_retries a \<le> MAX_RETRIES \<and>
     (\<forall>i. agent_conn a = Some i \<longrightarrow> conns a i \<noteq> None)"

lemma agent_inv_upd_conn [simp]: "agent_inv (upd_conn i f a) = agent_inv a"
  by (auto simp: agent_inv_def upd_conn_def)

lemma reply_inv [simp]: "agent_inv a \<Longrightarrow> agent_inv (sendAck P t c a)" "agent_inv a \<Longrightarrow> agent_inv (sendNack P t c r a)"
  by (auto simp: agent_inv_def sendAck_def sendNack_def getNextHeaderId_def send_if_connected_def upd_conn_def Let_def split: option.split)

lemma agent_inv_fields [simp]:
  "agent_inv (a\<lparr>cmd_set_mode_header_id := x1\<rparr>) = agent_inv a" "agent_inv (a\<lparr>current_mode := x2\<rparr>) = agent_inv a"
  "agent_inv (a\<lparr>last_cmd_rc := x3\<rparr>) = agent_inv a" "agent_inv (a\<lparr>waiting := x4\<rparr>) = agent_inv a"
  "agent_inv (a\<lparr>expired := x5\<rparr>) = agent_inv a" "agent_inv (a\<lparr>connecting := x6\<rparr>) = agent_inv a"
  "agent_inv (a\<lparr>host := x7\<rparr>) = agent_inv a" "agent_inv (a\<lparr>port := x8\<rparr>) = agent_inv a"
  "agent_inv (a\<lparr>agent_shutting_down := x9\<rparr>) = agent_inv a" "agent_inv (a\<lparr>agent_counters := x10\<rparr>) = agent_inv a"
  by (simp_all add: agent_inv_def)

lemma handle_error_inv: "agent_inv a \<Longrightarrow> agent_inv (handleConnectionError a)"
  by (auto simp: agent_inv_def handleConnectionError_def set_timer_def MAX_RETRIES_def upd_conn_def Let_def split: option.split)

lemma startReporting_inv [simp]: "agent_inv (startReporting a) = agent_inv a"
  by (simp add: startReporting_def set_timer_def)

lemma send_unchecked_inv: "agent_inv a \<Longrightarrow> send_unchecked P m a = Inr b \<Longrightarrow> agent_inv b"
  by (auto simp: send_unchecked_def split: option.splits)

lemma onMessage_inv: "agent_inv a \<Longrightarrow> agent_onMessage P t i m a = (r, b) \<Longrightarrow> agent_inv b"
  by (auto simp: agent_onMessage_def Let_def split: if_splits sum.splits)

lemma sendHello_inv:
  assumes "agent_inv a" "sendHello P t a = Inr b"
  shows "agent_inv b"
proof -
  have "agent_inv (a\<lparr>agent_counters := cs, msg_hello := fill_message pl x y t (msg_hello a)\<rparr>)" for cs pl x y
    using assms(1) by (simp add: agent_inv_def)
  then show ?thesis
    using assms(2) by (simp add: sendHello_def getNextHeaderId_def Let_def) (erule send_unchecked_inv [rotated], simp)
qed

lemma connect_inv:
  assumes "agent_inv a" "connect_done P t ec a = Inr b"
  shows "agent_inv b"
proof (cases "ec = success")
  case True
  let ?a = "upd_conn (agent_next_conn a) tcp_start (upd_conn (agent_next_conn a) setErrorHandler (upd_conn (agent_next_conn a) setMessageHandler
    (a\<lparr>connecting := False, agent_retries := 0, conns := (conns a)(agent_next_conn a \<mapsto> new_TcpComm True),
       agent_next_conn := Suc (agent_next_conn a), agent_conn := Some (agent_next_conn a)\<rparr>)))"
  have "agent_inv ?a"
    using assms(1) unfolding agent_inv_upd_conn by (simp add: agent_inv_def)
  with True assms(2) show ?thesis
    using sendHello_inv [of ?a P t] by (auto simp: connect_done_def Let_def err_simps)
next
  case False
  with assms show ?thesis
    by (auto simp: connect_done_def Let_def handle_error_inv)
qed

lemma report_inv:
  assumes "agent_inv a" "report_done P load t1 t2 ec a = Inr b"
  shows "agent_inv b"
proof (cases "ec = success")
  case False
  with assms show ?thesis by (simp add: report_done_def)
next
  case True
  have hb: "agent_inv (a\<lparr>agent_counters := cs, msg_hb := fill_message pl x y t (msg_hb a)\<rparr>)" for cs pl x y t
    using assms(1) by (simp add: agent_inv_def)
  obtain a1 a2 cs pl x y where "send_unchecked P (fill_message [] (self_id a) x t1 (msg_hb a))
        (a\<lparr>agent_counters := cs, msg_hb := fill_message [] (self_id a) x t1 (msg_hb a)\<rparr>) = Inr a1"
    and a2: "send_unchecked P (fill_message pl (self_id a1) y t2 (msg_state a1))
        (a1\<lparr>agent_counters := agent_counters (snd (getNextHeaderId STATE a1)),
           msg_state := fill_message pl (self_id a1) y t2 (msg_state a1)\<rparr>) = Inr a2"
    and b: "b = startReporting a2"
    using assms(2) True by (simp add: report_done_def getNextHeaderId_def Heartbeat_serialize_def Let_def err_simps) blast
  then have "agent_inv a1"
    using send_unchecked_inv [OF hb] by blast
  then have "agent_inv (a1\<lparr>agent_counters := cs', msg_state := fill_message pl (self_id a1) y t2 (msg_state a1)\<rparr>)" for cs'
    by (simp add: agent_inv_def)
  then show ?thesis
    using send_unchecked_inv a2 b by (metis startReporting_inv)
qed

interpretation agent_client: tcp_client "agent_onMessage P t" agent_error_handler agent_inv
  for P t
  by unfold_locales (auto simp: agent_error_handler_def intro: onMessage_inv handle_error_inv)

text \<open>
  Runs of an agent: the call of \<^verbatim>\<open>main\<close>, the completions of the connection attempt, the timer (a wait expires, then its
  handler runs, not necessarily at once), the connections and their closures, and the signal.
\<close>

inductive agent_run :: "IMessageParser \<Rightarrow> Agent \<Rightarrow> bool" for P where
  ag_new: "agent_run P (new_Agent t1 t2 t3 t4 t5 aid)"
| ag_start: "agent_run P a \<Longrightarrow> agent_start r h p a = Inr b \<Longrightarrow> agent_run P b"
| ag_connect: "agent_run P a \<Longrightarrow> connecting a \<Longrightarrow> connect_done P t ec a = Inr b \<Longrightarrow> agent_run P b"
| ag_expire: "agent_run P a \<Longrightarrow> waiting a = Some w \<Longrightarrow> agent_run P (a\<lparr>waiting := None, expired := expired a @ [w]\<rparr>)"
| ag_report: "agent_run P a \<Longrightarrow> expired a = xs @ Report # ys \<Longrightarrow>
    report_done P load t1 t2 success (a\<lparr>expired := xs @ ys\<rparr>) = Inr b \<Longrightarrow> agent_run P b"
| ag_retry: "agent_run P a \<Longrightarrow> expired a = xs @ Retry # ys \<Longrightarrow>
    retry_done r success (a\<lparr>expired := xs @ ys\<rparr>) = Inr b \<Longrightarrow> agent_run P b"
| ag_header: "agent_run P a \<Longrightarrow> agent_run P (readHeader_done P agent_error_handler i ec data a)"
| ag_body: "agent_run P a \<Longrightarrow> readBody_done P (agent_onMessage P t) agent_error_handler i tot ec data a = Inr b \<Longrightarrow> agent_run P b"
| ag_message: "agent_run P a \<Longrightarrow> agent_onMessage P t i m a = (r, b) \<Longrightarrow> agent_run P b"
| ag_error: "agent_run P a \<Longrightarrow> agent_run P (agent_error_handler i ec a)"
| ag_written: "agent_run P a \<Longrightarrow> agent_run P (write_done agent_error_handler i ec a)"
| ag_posted: "agent_run P a \<Longrightarrow> conns a i = Some c \<Longrightarrow> k < length (posted c) \<Longrightarrow> agent_run P (upd_conn i (run_posted k) a)"
| ag_signal: "agent_run P a \<Longrightarrow> agent_run P (agent_signal_done ec a)"

lemma agent_run_inv: "agent_run P a \<Longrightarrow> agent_inv a"
proof (induction rule: agent_run.induct)
  case (ag_new t1 t2 t3 t4 t5 aid)
  then show ?case by (simp add: agent_inv_def new_Agent_def new_Message_def MAX_RETRIES_def)
next
  case (ag_report a xs ys load t1 t2 b)
  then show ?case by (auto dest: report_inv [rotated])
next
  case (ag_retry a xs ys r b)
  then show ?case by (auto simp: retry_done_def agent_start_def err_simps Let_def)
next
  case (ag_body a t i tot ec data b)
  then show ?case
    using agent_client.readBody_done_inv [of a P P t i tot ec data b] by simp
qed (auto simp: agent_start_def err_simps Let_def agent_client.readHeader_done_inv agent_client.write_completion_inv
    agent_client.run_posted_inv agent_error_handler_def handle_error_inv agent_signal_done_def shutdownAgent_def
    intro: connect_inv onMessage_inv split: option.split)

section \<open>Properties\<close>

text \<open>An agent that has just connected.\<close>

definition sample_agent :: Agent where
  "sample_agent = (case connect_done (BinaryMessageParser 0) 0 success
      ((new_Agent 0 0 0 0 0 7)\<lparr>host := ''h'', port := ''9000'', connecting := True\<rparr>) of Inr a \<Rightarrow> a | Inl _ \<Rightarrow> new_Agent 0 0 0 0 0 7)"

lemma sample_agent_connected:
  "connect_done (BinaryMessageParser 0) 0 success ((new_Agent 0 0 0 0 0 7)\<lparr>host := ''h'', port := ''9000'', connecting := True\<rparr>) = Inr sample_agent"
  by (simp add: sample_agent_def connect_done_def sendHello_def send_unchecked_def getNextHeaderId_def new_Agent_def Let_def upd_conn_def
      del: split_paired_Ex)

lemma sample_agent_run: "agent_run (BinaryMessageParser 0) sample_agent"
proof (rule ag_connect)
  show "agent_run (BinaryMessageParser 0) ((new_Agent 0 0 0 0 0 7)\<lparr>host := ''h'', port := ''9000'', connecting := True\<rparr>)"
    by (rule ag_start [OF ag_new, where r = "Inr ()" and h = "''h''" and p = "''9000''"]) (simp add: agent_start_def)
  show "connect_done (BinaryMessageParser 0) 0 success ((new_Agent 0 0 0 0 0 7)\<lparr>host := ''h'', port := ''9000'', connecting := True\<rparr>) = Inr sample_agent"
    by (rule sample_agent_connected)
qed simp

lemma sample_agent_simps:
  "agent_conn sample_agent = Some 0" "conns sample_agent 0 \<noteq> None" "cmd_set_mode_header_id sample_agent = 0xFFFFFFFF"
  "waiting sample_agent = Some Report" "expired sample_agent = []" "agent_retries sample_agent = 0"
  "agent_shutting_down sample_agent = False" "current_mode sample_agent = 0"
  by (simp_all add: sample_agent_def connect_done_def sendHello_def send_unchecked_def getNextHeaderId_def new_Agent_def upd_conn_def Let_def
      startReporting_def set_timer_def)

lemma inv_answers:
  assumes inv: "agent_inv a" and c: "agent_conn a = Some i" "conns a i = Some c"
    and ok: "ok \<longleftrightarrow> msg_type (header m) = CMD_SET_MODE \<and> header_id (header m) \<noteq> cmd_set_mode_header_id a \<and> 4 \<le> length (payload m)"
  shows "\<exists>b r. agent_onMessage P t j m a = (None, b) \<and>
    conns b i = Some (c\<lparr>posted := posted c @ [Push_frame (parser_serialize P r)]\<rparr>) \<and> wf_message r \<and>
    (if ok then msg_type (header r) = ACK \<and> payload r = Ack_serialize \<lparr>ack_cmd_id = header_id (header m)\<rparr> \<and>
        CmdSetMode_deserialize (payload m) CmdSetMode_fresh = Inr \<lparr>set_mode = current_mode b\<rparr> \<and> last_cmd_rc b = 0 \<and>
        cmd_set_mode_header_id b = header_id (header m)
     else msg_type (header r) = NACK \<and> current_mode b = current_mode a \<and>
        (\<exists>reason. payload r = Nack_serialize \<lparr>nack_cmd_id = header_id (header m), nack_reason = reason\<rparr>))"
proof -
  note inv = inv [unfolded agent_inv_def]
  let ?h = "header_id (header m)"
  let ?a = "a\<lparr>cmd_set_mode_header_id := ?h\<rparr>"
  show ?thesis
  proof (cases ok)
    case True
    then obtain pl where pl: "CmdSetMode_deserialize (payload m) CmdSetMode_fresh = Inr pl"
      using ok set_mode.des_ok_iff [of "payload m" CmdSetMode_fresh] by blast
    have "pl = \<lparr>set_mode = set_mode pl\<rparr>"
      by (cases pl) simp
    with True ok pl inv c sendAck_posts [of "?a\<lparr>current_mode := set_mode pl, last_cmd_rc := 0\<rparr>" i c P t ?h]
    show ?thesis by (auto simp: agent_onMessage_def)
  next
    case False
    then consider "msg_type (header m) \<noteq> CMD_SET_MODE" | "msg_type (header m) = CMD_SET_MODE" "?h = cmd_set_mode_header_id a"
      | "msg_type (header m) = CMD_SET_MODE" "?h \<noteq> cmd_set_mode_header_id a" "length (payload m) < 4"
      using ok by linarith
    then have "\<exists>b reason. agent_onMessage P t j m a = (None, sendNack P t ?h reason b) \<and> length reason < 1000 \<and>
        agent_conn b = Some i \<and> conns b i = Some c \<and> msg_type (header (msg_nack b)) = NACK \<and> current_mode b = current_mode a"
    proof cases
      case 1
      then show ?thesis using inv c
        by (intro exI [of _ a] exI [of _ "''Unknown message type''"]) (simp add: agent_onMessage_def)
    next
      case 2
      then show ?thesis using inv c
        by (intro exI [of _ a] exI [of _ "''Duplicate CMD_SET_MODE command''"]) (simp add: agent_onMessage_def)
    next
      case 3
      then show ?thesis using inv c set_mode.des_short [OF 3(3)]
        by (intro exI [of _ "?a\<lparr>last_cmd_rc := - 1\<rparr>"] exI [of _ "''Invalid CmdSetModePayload size''"]) (simp add: agent_onMessage_def Let_def)
    qed
    then obtain b reason where "agent_onMessage P t j m a = (None, sendNack P t ?h reason b)" "length reason < 1000"
        "agent_conn b = Some i" "conns b i = Some c" "msg_type (header (msg_nack b)) = NACK" "current_mode b = current_mode a"
      by blast
    with False sendNack_posts [of b i c reason P t ?h] show ?thesis
      by auto
  qed
qed

text \<open>C16: the agent answers every message with exactly one frame on its connection, and never throws. A mode command with a new id
  and a payload of at least four bytes sets the mode and is acknowledged under its id; everything else (a repeated id, a short
  payload, another type) is answered with a \<^verbatim>\<open>NACK\<close> under its id and leaves the mode as it was.\<close>

theorem every_message_answered_once:
  assumes run: "agent_run P a" and c: "agent_conn a = Some i" "conns a i = Some c"
    and ok: "ok \<longleftrightarrow> msg_type (header m) = CMD_SET_MODE \<and> header_id (header m) \<noteq> cmd_set_mode_header_id a \<and> 4 \<le> length (payload m)"
  shows "\<exists>b r. agent_onMessage P t j m a = (None, b) \<and>
    conns b i = Some (c\<lparr>posted := posted c @ [Push_frame (parser_serialize P r)]\<rparr>) \<and> wf_message r \<and>
    (if ok then msg_type (header r) = ACK \<and> payload r = Ack_serialize \<lparr>ack_cmd_id = header_id (header m)\<rparr> \<and>
        CmdSetMode_deserialize (payload m) CmdSetMode_fresh = Inr \<lparr>set_mode = current_mode b\<rparr> \<and> last_cmd_rc b = 0 \<and>
        cmd_set_mode_header_id b = header_id (header m)
     else msg_type (header r) = NACK \<and> current_mode b = current_mode a \<and>
        (\<exists>reason. payload r = Nack_serialize \<lparr>nack_cmd_id = header_id (header m), nack_reason = reason\<rparr>))"
  using agent_run_inv [OF run] c ok by (rule inv_answers)

theorem every_message_answered_once_witness:
  "\<exists>b. agent_onMessage (BinaryMessageParser 0) 0 0 (new_Message 0 CMD_SET_MODE [0, 0, 0, 1] 0 5 0) sample_agent = (None, b) \<and>
     CmdSetMode_deserialize [0, 0, 0, 1] CmdSetMode_fresh = Inr \<lparr>set_mode = current_mode b\<rparr>"
proof -
  obtain c where c: "conns sample_agent 0 = Some c"
    using sample_agent_simps(2) by auto
  show ?thesis
    using every_message_answered_once [OF sample_agent_run sample_agent_simps(1) c, of True "new_Message 0 CMD_SET_MODE [0, 0, 0, 1] 0 5 0" 0 0]
    by (auto simp: sample_agent_simps new_Message_def)
qed

text \<open>A command is applied once: after a mode command, any number of further mode commands with the same id, whatever they carry,
  leaves the mode and the return code unchanged.\<close>

lemma repeated_command_not_applied:
  assumes "agent_onMessage P t j m a = (r, b)" "msg_type (header m) = CMD_SET_MODE"
    and "\<forall>m' \<in> set ms. msg_type (header m') = CMD_SET_MODE \<and> header_id (header m') = header_id (header m)"
  shows "current_mode (fold (\<lambda>m' a. snd (agent_onMessage P t j m' a)) ms b) = current_mode b \<and>
    last_cmd_rc (fold (\<lambda>m' a. snd (agent_onMessage P t j m' a)) ms b) = last_cmd_rc b"
proof -
  have "cmd_set_mode_header_id b = header_id (header m)"
    using assms(1,2) by (auto simp: agent_onMessage_def Let_def split: if_splits sum.splits)
  then show ?thesis
    using assms(3)
    by (induction ms arbitrary: b) (auto simp: agent_onMessage_def)
qed

text \<open>One round of a controller that stays away: the retry wait expires, its handler starts a connection attempt, the attempt fails.\<close>

definition failed_attempt :: "IMessageParser \<Rightarrow> u64 \<Rightarrow> Agent \<Rightarrow> Agent" where
  "failed_attempt P t a =
     (case waiting a of
        Some Retry \<Rightarrow>
          (case ebind (retry_done (Inr ()) success (a\<lparr>waiting := None\<rparr>)) (connect_done P t (other_error 111)) of
             Inl e \<Rightarrow> a
           | Inr b \<Rightarrow> b)
      | _ \<Rightarrow> a)"

lemma failed_attempt_step:
  assumes "waiting a = Some Retry" "agent_retries a \<le> MAX_RETRIES"
  shows "waiting (failed_attempt P t a) = (if agent_retries a < MAX_RETRIES then Some Retry else None)"
    "agent_retries (failed_attempt P t a) = min MAX_RETRIES (Suc (agent_retries a))"
  using assms
  by (auto simp: failed_attempt_def retry_done_def agent_start_def connect_done_def handleConnectionError_def set_timer_def upd_conn_def
      Let_def split: option.split)

lemma failed_attempts:
  "waiting a = Some Retry \<Longrightarrow> agent_retries a + j \<le> MAX_RETRIES \<Longrightarrow>
   waiting ((failed_attempt P t ^^ j) a) = Some Retry \<and> agent_retries ((failed_attempt P t ^^ j) a) = agent_retries a + j"
  by (induction j) (simp_all add: failed_attempt_step)

text \<open>C22: reconnecting ends: an agent waiting to retry after its \<open>r\<close>-th failure makes exactly \<open>4 - r\<close> further attempts if the controller
  stays away, so three after the first failure, and then waits for nothing more.\<close>

theorem reconnecting_ends:
  assumes "agent_run P a" "waiting a = Some Retry" "k = 4 - agent_retries a"
  shows "(\<forall>j < k. waiting ((failed_attempt P t ^^ j) a) = Some Retry) \<and> waiting ((failed_attempt P t ^^ k) a) = None"
proof -
  have r: "agent_retries a \<le> MAX_RETRIES"
    using agent_run_inv [OF assms(1)] by (simp add: agent_inv_def)
  let ?b = "(failed_attempt P t ^^ (3 - agent_retries a)) a"
  have b: "waiting ?b = Some Retry" "agent_retries ?b = MAX_RETRIES"
    using failed_attempts [OF assms(2), of "3 - agent_retries a" P t] r by (simp_all add: MAX_RETRIES_def)
  have "k = Suc (3 - agent_retries a)"
    using r assms(3) by (simp add: MAX_RETRIES_def)
  then have "(failed_attempt P t ^^ k) a = failed_attempt P t ?b"
    by simp
  moreover have "waiting (failed_attempt P t ?b) = None"
    using failed_attempt_step(1) [OF b(1)] b(2) by simp
  ultimately show ?thesis
    using failed_attempts [OF assms(2)] r assms(3) by (auto simp: MAX_RETRIES_def)
qed

theorem reconnecting_ends_witness:
  "waiting ((failed_attempt (BinaryMessageParser 0) 0 ^^ 3) (agent_error_handler 0 eof sample_agent)) = None"
proof -
  let ?a = "agent_error_handler 0 eof sample_agent"
  have "waiting ?a = Some Retry" "agent_retries ?a = 1"
    by (simp_all add: agent_error_handler_def handleConnectionError_def sample_agent_simps set_timer_def MAX_RETRIES_def upd_conn_def)
  with reconnecting_ends [OF ag_error [OF sample_agent_run], of 0 eof 3 0] show ?thesis by simp
qed

text \<open>C34: an agent that is told to stop connects again: shutting down closes the connection gracefully, the read that is outstanding on
  it then fails, and the error handler, which does not look at the shutdown flag, arms the retry timer; its handler starts a new
  connection attempt.\<close>

theorem agent_reconnects_after_shutdown:
  assumes "agent_conn a = Some i" "agent_retries a < MAX_RETRIES"
    and "b = agent_error_handler i operation_aborted (shutdownAgent a)"
  shows "agent_shutting_down b \<and> waiting b = Some Retry \<and>
    (\<exists>c. retry_done (Inr ()) success (b\<lparr>waiting := None\<rparr>) = Inr c \<and> connecting c)"
  using assms
  by (auto simp: agent_error_handler_def handleConnectionError_def shutdownAgent_def set_timer_def retry_done_def agent_start_def upd_conn_def
      Let_def split: option.split)

theorem agent_reconnects_after_shutdown_witness:
  "agent_shutting_down (agent_error_handler 0 operation_aborted (shutdownAgent sample_agent)) \<and>
   waiting (agent_error_handler 0 operation_aborted (shutdownAgent sample_agent)) = Some Retry"
  using agent_reconnects_after_shutdown [OF sample_agent_simps(1) _ refl] sample_agent_simps(6)
  by (simp add: MAX_RETRIES_def)

text \<open>C35: there is a run in which the report timer has expired, the connection then fails before the report handler runs, and the handler
  dereferences the connection pointer that the error handler has reset.\<close>

theorem report_after_failure_dereferences_null:
  "\<exists>a. agent_run (BinaryMessageParser 0) a \<and> Report \<in> set (expired a) \<and>
     report_done (BinaryMessageParser 0) load t1 t2 success (a\<lparr>expired := []\<rparr>) = Inl null_deref"
proof -
  let ?a = "agent_error_handler 0 eof (sample_agent\<lparr>waiting := None, expired := expired sample_agent @ [Report]\<rparr>)"
  have "agent_run (BinaryMessageParser 0) ?a"
    using ag_error [OF ag_expire [OF sample_agent_run sample_agent_simps(4)]] .
  moreover have "Report \<in> set (expired ?a)" "agent_conn (?a\<lparr>expired := []\<rparr>) = None"
    by (simp_all add: agent_error_handler_def handleConnectionError_def sample_agent_simps set_timer_def MAX_RETRIES_def upd_conn_def)
  then have "Report \<in> set (expired ?a) \<and> report_done (BinaryMessageParser 0) load t1 t2 success (?a\<lparr>expired := []\<rparr>) = Inl null_deref"
    by (simp add: report_done_def getNextHeaderId_def send_unchecked_def Let_def)
  ultimately show ?thesis by blast
qed

end
