(* ===== verification/Fleet_Typing.thy ===== *)
theory Fleet_Typing
  imports Fleet_Agent
begin

text \<open>
  The frames an agent ever puts on a connection: well-formed messages under its own id, of one of the five types an agent
  sends, with a payload of that type.
\<close>

definition agent_message :: "u32 \<Rightarrow> Message \<Rightarrow> bool" where
  "agent_message aid m \<longleftrightarrow>
     wf_message m \<and> agent_id (header m) = aid \<and>
     (msg_type (header m) = HELLO \<and> payload m = Hello_serialize \<lparr>hello_agent_id = aid, hello_version = 1\<rparr> \<or>
      msg_type (header m) = HEARTBEAT \<and> payload m = [] \<or>
      msg_type (header m) = STATE \<and> length (payload m) = 16 \<or>
      msg_type (header m) = ACK \<and> length (payload m) = 4 \<or>
      msg_type (header m) = NACK \<and> 4 \<le> length (payload m))"

definition typed_frames :: "IMessageParser \<Rightarrow> u32 \<Rightarrow> bytes set" where
  "typed_frames P aid = parser_serialize P ` Collect (agent_message aid)"

definition agent_typed :: "IMessageParser \<Rightarrow> Agent \<Rightarrow> bool" where
  "agent_typed P a \<longleftrightarrow> agent_inv a \<and> (\<forall>i c. conns a i = Some c \<longrightarrow> outgoing c \<subseteq> typed_frames P (self_id a))"

lemma agent_typed_fields [simp]:
  "agent_typed P (a\<lparr>cmd_set_mode_header_id := x1\<rparr>) = agent_typed P a" "agent_typed P (a\<lparr>current_mode := x2\<rparr>) = agent_typed P a"
  "agent_typed P (a\<lparr>last_cmd_rc := x3\<rparr>) = agent_typed P a" "agent_typed P (a\<lparr>waiting := x4\<rparr>) = agent_typed P a"
  "agent_typed P (a\<lparr>expired := x5\<rparr>) = agent_typed P a" "agent_typed P (a\<lparr>connecting := x6\<rparr>) = agent_typed P a"
  "agent_typed P (a\<lparr>host := x7\<rparr>) = agent_typed P a" "agent_typed P (a\<lparr>port := x8\<rparr>) = agent_typed P a"
  "agent_typed P (a\<lparr>agent_shutting_down := x9\<rparr>) = agent_typed P a" "agent_typed P (a\<lparr>agent_counters := x10\<rparr>) = agent_typed P a"
  by (simp_all add: agent_typed_def)

text \<open>An update of a connection that adds only typed frames.\<close>

lemma agent_typed_upd:
  assumes "agent_typed P a" "\<And>c. conns a i = Some c \<Longrightarrow> outgoing (f c) \<subseteq> outgoing c \<union> typed_frames P (self_id a)"
  shows "agent_typed P (upd_conn i f a)"
proof -
  have old: "outgoing c \<subseteq> typed_frames P (self_id a)" if "conns a j = Some c" for j c
    using that assms(1) by (simp add: agent_typed_def)
  have "outgoing d \<subseteq> typed_frames P (self_id a)" if d: "conns (upd_conn i f a) j = Some d" for j d
  proof (cases "j = i")
    case True
    then obtain c where "conns a i = Some c" "d = f c"
      using d by (auto simp: upd_conn_def)
    then show ?thesis
      using assms(2) old by blast
  next
    case False
    then show ?thesis
      using d old by (auto simp: upd_conn_def)
  qed
  moreover have "self_id (upd_conn i f a) = self_id a"
    by (simp add: upd_conn_def)
  ultimately show ?thesis
    using assms(1) by (simp add: agent_typed_def)
qed

lemma outgoing_ops [simp]:
  "outgoing (tcp_send P m c) = insert (parser_serialize P m) (outgoing c)" "outgoing (tcp_disconnect c) = outgoing c"
  "outgoing (flushAndDisconnect c) = outgoing c" "outgoing (setMessageHandler c) = outgoing c" "outgoing (setErrorHandler c) = outgoing c"
  "outgoing (tcp_start c) = outgoing c" "outgoing (new_TcpComm b) = {}"
  by (auto simp: outgoing_def tcp_defs new_TcpComm_def)

lemma send_typed:
  assumes "agent_typed P a" "agent_message (self_id a) m"
  shows "agent_typed P (upd_conn i (tcp_send P m) a)"
  using assms by (intro agent_typed_upd) (auto simp: typed_frames_def)

lemma send_if_connected_typed:
  "agent_typed P a \<Longrightarrow> agent_message (self_id a) m \<Longrightarrow> agent_typed P (send_if_connected P m a)"
  by (simp add: send_if_connected_def send_typed split: option.split)

lemma send_unchecked_typed:
  "agent_typed P a \<Longrightarrow> agent_message (self_id a) m \<Longrightarrow> send_unchecked P m a = Inr b \<Longrightarrow> agent_typed P b \<and> self_id b = self_id a"
  using send_typed [of P a m] by (auto simp: send_unchecked_def split: option.splits) (simp add: upd_conn_def)

text \<open>Filling in one of the agent's messages.\<close>

lemma typed_msg_fields:
  "agent_typed P a \<Longrightarrow> msg_type (header m) = HELLO \<Longrightarrow> agent_typed P (a\<lparr>msg_hello := m\<rparr>)"
  "agent_typed P a \<Longrightarrow> msg_type (header m) = HEARTBEAT \<Longrightarrow> agent_typed P (a\<lparr>msg_hb := m\<rparr>)"
  "agent_typed P a \<Longrightarrow> msg_type (header m) = STATE \<Longrightarrow> agent_typed P (a\<lparr>msg_state := m\<rparr>)"
  "agent_typed P a \<Longrightarrow> msg_type (header m) = ACK \<Longrightarrow> agent_typed P (a\<lparr>msg_ack := m\<rparr>)"
  "agent_typed P a \<Longrightarrow> msg_type (header m) = NACK \<Longrightarrow> agent_typed P (a\<lparr>msg_nack := m\<rparr>)"
  by (simp_all add: agent_typed_def agent_inv_def)

lemma typed_types:
  assumes "agent_typed P a"
  shows "msg_type (header (msg_hello a)) = HELLO" "msg_type (header (msg_hb a)) = HEARTBEAT" "msg_type (header (msg_state a)) = STATE"
    "msg_type (header (msg_ack a)) = ACK" "msg_type (header (msg_nack a)) = NACK"
  using assms by (simp_all add: agent_typed_def agent_inv_def)

lemma filled_messages:
  "msg_type (header m) = HELLO \<Longrightarrow>
     agent_message aid (fill_message (Hello_serialize \<lparr>hello_agent_id = aid, hello_version = 1\<rparr>) aid hid t m)"
  "msg_type (header m) = HEARTBEAT \<Longrightarrow> agent_message aid (fill_message [] aid hid t m)"
  "msg_type (header m) = STATE \<Longrightarrow> agent_message aid (fill_message (State_serialize sp) aid hid t m)"
  "msg_type (header m) = ACK \<Longrightarrow> agent_message aid (fill_message (Ack_serialize ap) aid hid t m)"
  "msg_type (header m) = NACK \<Longrightarrow> length (nack_reason np) < 1000 \<Longrightarrow> agent_message aid (fill_message (Nack_serialize np) aid hid t m)"
  by (auto simp: agent_message_def Hello_serialize_def State_serialize_def Ack_serialize_def Nack_serialize_def intro!: wf_fill_message)

lemma reply_typed:
  assumes "agent_typed P a"
  shows "agent_typed P (sendAck P t c a)" "length r < 1000 \<Longrightarrow> agent_typed P (sendNack P t c r a)"
  using assms typed_types [OF assms]
  by (auto simp: sendAck_def sendNack_def getNextHeaderId_def Let_def intro!: send_if_connected_typed typed_msg_fields filled_messages)

lemma message_typed:
  assumes "agent_typed P a" "agent_onMessage P t i m a = (r, b)"
  shows "agent_typed P b"
proof (cases "CmdSetMode_deserialize (payload m) CmdSetMode_fresh")
  case (Inl e)
  then have "e = runtime_error ''Invalid CmdSetModePayload size''"
    by (simp add: set_mode.des_error_iff)
  with Inl show ?thesis
    using assms by (auto simp: agent_onMessage_def Let_def intro!: reply_typed split: if_splits)
next
  case (Inr pl)
  then show ?thesis
    using assms by (auto simp: agent_onMessage_def Let_def intro!: reply_typed split: if_splits)
qed

lemma error_typed: "agent_typed P a \<Longrightarrow> agent_typed P (handleConnectionError a)"
proof -
  assume a: "agent_typed P a"
  then have "agent_typed P ((upd_conn i tcp_disconnect a)\<lparr>agent_conn := None\<rparr>)" for i
    using agent_typed_upd [OF a, of i tcp_disconnect] by (auto simp: agent_typed_def agent_inv_def)
  moreover have "agent_typed P (b\<lparr>agent_retries := Suc (agent_retries b)\<rparr>)" if "agent_typed P b" "agent_retries b < MAX_RETRIES" for b
    using that by (simp add: agent_typed_def agent_inv_def)
  ultimately show ?thesis
    using a by (auto simp: handleConnectionError_def set_timer_def Let_def split: option.split)
qed

interpretation typed_client: tcp_client "agent_onMessage P t" agent_error_handler "agent_typed P"
  for P t
proof
  show "agent_typed P (upd_conn i f w)" if "agent_typed P w"
    "\<And>c. conns w i = Some c \<Longrightarrow> user_context (f c) = user_context c \<and> outgoing (f c) \<subseteq> outgoing c \<and> prefix (wire c) (wire (f c))" for w i f
    using that by (intro agent_typed_upd) auto
qed (auto simp: agent_error_handler_def intro: message_typed error_typed)

lemma startReporting_typed [simp]: "agent_typed P (startReporting a) = agent_typed P a"
  by (simp add: startReporting_def set_timer_def)

lemma hello_typed:
  assumes a: "agent_typed P a" and b: "sendHello P t a = Inr b"
  shows "agent_typed P b"
proof -
  let ?m = "fill_message (Hello_serialize \<lparr>hello_agent_id = self_id a, hello_version = 1\<rparr>) (self_id a) (fst (getNextHeaderId HELLO a)) t (msg_hello a)"
  let ?a = "a\<lparr>agent_counters := agent_counters (snd (getNextHeaderId HELLO a)), msg_hello := ?m\<rparr>"
  have "send_unchecked P ?m ?a = Inr b"
    using b by (simp add: sendHello_def getNextHeaderId_def Let_def)
  moreover have "agent_typed P ?a" "agent_message (self_id ?a) ?m"
    using a typed_types [OF a] by (auto intro!: typed_msg_fields filled_messages)
  ultimately show ?thesis
    using send_unchecked_typed by blast
qed

lemma connect_typed:
  assumes a: "agent_typed P a" and b: "connect_done P t ec a = Inr b"
  shows "agent_typed P b"
proof (cases "ec = success")
  case True
  let ?i = "agent_next_conn a"
  let ?a = "a\<lparr>connecting := False, agent_retries := 0, conns := (conns a)(?i \<mapsto> new_TcpComm True), agent_next_conn := Suc ?i, agent_conn := Some ?i\<rparr>"
  have "agent_typed P ?a"
    using a by (auto simp: agent_typed_def agent_inv_def)
  then have "agent_typed P (upd_conn ?i tcp_start (upd_conn ?i setErrorHandler (upd_conn ?i setMessageHandler ?a)))"
    by (intro agent_typed_upd) simp_all
  with True b show ?thesis
    by (auto simp: connect_done_def Let_def err_simps dest: hello_typed)
next
  case False
  with assms show ?thesis
    by (auto simp: connect_done_def Let_def intro: error_typed)
qed

lemma report_typed:
  assumes a: "agent_typed P a" and b: "report_done P load t1 t2 ec a = Inr b"
  shows "agent_typed P b"
proof (cases "ec = success")
  case True
  let ?m1 = "fill_message [] (self_id a) (fst (getNextHeaderId HEARTBEAT a)) t1 (msg_hb a)"
  let ?a1 = "a\<lparr>agent_counters := agent_counters (snd (getNextHeaderId HEARTBEAT a)), msg_hb := ?m1\<rparr>"
  let ?m2 = "\<lambda>a1. fill_message (State_serialize \<lparr>state_mode = current_mode a, state_load = load, state_temp = temp_45, state_last_rc = last_cmd_rc a1\<rparr>)
    (self_id a1) (fst (getNextHeaderId STATE a1)) t2 (msg_state a1)"
  let ?a2 = "\<lambda>a1. a1\<lparr>agent_counters := agent_counters (snd (getNextHeaderId STATE a1)), msg_state := ?m2 a1\<rparr>"
  obtain a1 a2 where s: "send_unchecked P ?m1 ?a1 = Inr a1" "send_unchecked P (?m2 a1) (?a2 a1) = Inr a2" "b = startReporting a2"
    using True b by (auto simp: report_done_def getNextHeaderId_def Heartbeat_serialize_def Let_def err_simps)
  have "agent_typed P ?a1" "agent_message (self_id ?a1) ?m1"
    using a typed_types [OF a] by (auto intro!: typed_msg_fields filled_messages)
  then have a1: "agent_typed P a1"
    using send_unchecked_typed s(1) by blast
  then have "agent_typed P (?a2 a1)" "agent_message (self_id (?a2 a1)) (?m2 a1)"
    using typed_types [OF a1] by (auto intro!: typed_msg_fields filled_messages)
  then show ?thesis
    using send_unchecked_typed s(2,3) by (metis startReporting_typed)
next
  case False
  with assms show ?thesis by (simp add: report_done_def)
qed

lemma agent_run_typed: "agent_run P a \<Longrightarrow> agent_typed P a"
proof (induction rule: agent_run.induct)
  case (ag_new t1 t2 t3 t4 t5 aid)
  then show ?case by (simp add: agent_typed_def agent_inv_def new_Agent_def new_Message_def MAX_RETRIES_def)
next
  case (ag_report a xs ys load t1 t2 b)
  then show ?case by (auto dest: report_typed [rotated])
next
  case (ag_body a t i tot ec data b)
  then show ?case
    using typed_client.readBody_done_inv [of P a P t i tot ec data b] by simp
next
  case (ag_signal a ec)
  have "agent_typed P (upd_conn i flushAndDisconnect b)" if "agent_typed P b" for b i
    using that by (rule agent_typed_upd) simp
  with ag_signal show ?case
    by (auto simp: agent_signal_done_def shutdownAgent_def Let_def split: option.split)
qed (auto simp: agent_start_def retry_done_def err_simps Let_def typed_client.readHeader_done_inv typed_client.write_completion_inv
    typed_client.run_posted_inv agent_error_handler_def error_typed intro: connect_typed message_typed)

end
