(* ===== verification/Arrivals.thy ===== *)
theory Arrivals
  imports Tcp_Comm
begin

text \<open>
  From bytes to handled messages. A connection that receives the bytes of a sequence of frames does to its client what calling
  the message handler on the decoded messages, one after the other, does: the read loop, its buffer and the parser in
  between cannot be observed. Frames arrive at times of their own, which the handlers see as readings of the clock.
\<close>

section \<open>Arrivals\<close>

text \<open>
  Each element is a piece of the stream that arrives at a time; the two reads of a frame may complete then. \<open>s\<close> are bytes that
  arrived before and were not read.
\<close>

fun arrivals :: "IMessageParser \<Rightarrow> ('t \<Rightarrow> 'a io_world_scheme MessageHandler) \<Rightarrow> 'a io_world_scheme ErrorHandler \<Rightarrow> nat \<Rightarrow>
    bytes \<Rightarrow> ('t \<times> bytes) list \<Rightarrow> 'a io_world_scheme \<Rightarrow> exn + bytes \<times> 'a io_world_scheme" where
  "arrivals P mh eh i s [] w = Inr (s, w)"
| "arrivals P mh eh i s ((t, f) # xs) w =
     ebind (feed 2 P (mh t) eh i (s @ f) w) (\<lambda>(s', w'). arrivals P mh eh i s' xs w')"

text \<open>The reference: the handler on one message after the other, until it throws.\<close>

fun handle_all :: "('t \<Rightarrow> 'w MessageHandler) \<Rightarrow> nat \<Rightarrow> ('t \<times> Message) list \<Rightarrow> 'w \<Rightarrow> exn option \<times> 'w" where
  "handle_all mh i [] w = (None, w)"
| "handle_all mh i ((t, m) # xs) w =
     (case mh t i m w of
        (Some e, w') \<Rightarrow> (Some e, w')
      | (None, w') \<Rightarrow> handle_all mh i xs w')"

text \<open>The world without the reading side of a connection.\<close>

definition strip_reader :: "TcpComm \<Rightarrow> TcpComm" where
  "strip_reader c = c\<lparr>read_buffer := [], reading := None\<rparr>"

definition strip_conn :: "nat \<Rightarrow> 'a io_world_scheme \<Rightarrow> 'a io_world_scheme" where
  "strip_conn i w = upd_conn i strip_reader w"

definition same_reader :: "TcpComm \<Rightarrow> TcpComm \<Rightarrow> bool" where
  "same_reader c c' \<longleftrightarrow>
     read_buffer c' = read_buffer c \<and> msg_handler_set c' = msg_handler_set c \<and> err_handler_set c' = err_handler_set c"

section \<open>The contract\<close>

text \<open>A message handler that does not look at the reading side of the connection it is called for, and leaves it alone.\<close>

locale frame_reader = message_parser +
  fixes mh :: "'t \<Rightarrow> 'a io_world_scheme MessageHandler"
  assumes mh_strip: "mh t i m (strip_conn i w) = apsnd (strip_conn i) (mh t i m w)"
    and mh_reader: "conns w i = Some c \<Longrightarrow> mh t i m w = (r, w') \<Longrightarrow> \<exists>c'. conns w' i = Some c' \<and> same_reader c c'"
begin

lemma arrive_one:
  assumes c: "conns w i = Some c" "receptive hsize c" and m: "wf m"
    and v: "mh t i (canon m) (strip_conn i w) = (None, v)"
  shows "\<exists>w' c'. feed 2 (parser_api ser des hsize) (mh t) eh i (ser m) w = Inr ([], w') \<and>
    conns w' i = Some c' \<and> receptive hsize c' \<and> strip_conn i w' = v"
proof -
  let ?P = "parser_api ser des hsize"
  obtain c1 rest where c1: "read_buffer c1 = ser m @ rest" "msg_handler_set c1" "err_handler_set c1"
    and s1: "c1 = c\<lparr>read_buffer := read_buffer c1, reading := None\<rparr>"
    and feed: "\<And>n mh eh s. feed (Suc (Suc n)) ?P mh eh i (ser m @ s) w =
       ebind (dispatch_frame ?P mh eh i (length (ser m)) c1 (w\<lparr>conns := (conns w)(i \<mapsto> c1)\<rparr>)) (\<lambda>w'. feed n ?P mh eh i s w')"
    using feed_frame [of w i c ?P "ser m" "payload_len (header m)"] c ser_length [OF m] ser_prefix [OF m, of "[]"]
    by auto
  let ?w = "w\<lparr>conns := (conns w)(i \<mapsto> c1)\<rparr>"
  have "strip_reader c1 = strip_reader c"
    by (subst s1) (simp add: strip_reader_def)
  then have "strip_conn i ?w = strip_conn i w"
    using c(1) by (simp add: strip_conn_def upd_conn_def)
  then have h: "apsnd (strip_conn i) (mh t i (canon m) ?w) = (None, v)"
    using mh_strip [of t i "canon m" ?w] v by simp
  then obtain w1 where w1: "mh t i (canon m) ?w = (None, w1)" "strip_conn i w1 = v"
    by (cases "mh t i (canon m) ?w") auto
  obtain c2 where c2: "conns w1 i = Some c2" "same_reader c1 c2"
    using mh_reader [of ?w i c1 t "canon m" None w1] w1(1) by auto
  have "dispatch_frame ?P (mh t) eh i (length (ser m)) c1 ?w = Inr (upd_conn i readHeader w1)"
    using des_ser [OF m, of rest] c1 w1(1) by (simp add: dispatch_frame_def)
  then have "feed 2 ?P (mh t) eh i (ser m) w = Inr ([], upd_conn i readHeader w1)"
    using feed [of 0 "mh t" eh "[]"] by (simp add: numeral_2_eq_2)
  moreover have "receptive hsize (readHeader c2)"
    using c1 c2(2) c(2) ser_length [OF m] by (simp add: receptive_def readHeader_def same_reader_def)
  moreover have "strip_conn i (upd_conn i readHeader w1) = v"
    using c2(1) by (simp add: w1(2) [symmetric] strip_conn_def upd_conn_def readHeader_def strip_reader_def)
  ultimately show ?thesis
    using c2(1) by (intro exI [of _ "upd_conn i readHeader w1"] exI [of _ "readHeader c2"]) simp
qed

lemma arrive_all:
  "(\<And>t m. (t, m) \<in> set tms \<Longrightarrow> wf m) \<Longrightarrow> conns w i = Some c \<Longrightarrow> receptive hsize c \<Longrightarrow>
   handle_all mh i (map (apsnd canon) tms) (strip_conn i w) = (None, v) \<Longrightarrow>
   \<exists>w' c'. arrivals (parser_api ser des hsize) mh eh i [] (map (apsnd ser) tms) w = Inr ([], w') \<and>
     conns w' i = Some c' \<and> receptive hsize c' \<and> strip_conn i w' = v"
proof (induction tms arbitrary: w c)
  case (Cons tm tms)
  obtain t m where tm: "tm = (t, m)" by force
  obtain v1 where v1: "mh t i (canon m) (strip_conn i w) = (None, v1)" "handle_all mh i (map (apsnd canon) tms) v1 = (None, v)"
    using Cons.prems(4) tm by (auto split: prod.splits option.splits)
  obtain w1 c1 where w1: "feed 2 (parser_api ser des hsize) (mh t) eh i (ser m) w = Inr ([], w1)"
      "conns w1 i = Some c1" "receptive hsize c1" "strip_conn i w1 = v1"
    using arrive_one [OF Cons.prems(2,3) _ v1(1), of eh] Cons.prems(1) [of t m] tm by auto
  with Cons.IH [of w1 c1] Cons.prems(1) v1(2) tm show ?case
    by fastforce
qed simp

end

text \<open>What the completions of the two reads keep, arrivals keep: in particular they stay within the runs of a client.\<close>

locale read_steps =
  fixes P :: IMessageParser and mh :: "'t \<Rightarrow> 'a io_world_scheme MessageHandler" and eh :: "'a io_world_scheme ErrorHandler"
    and i :: nat and Q :: "'a io_world_scheme \<Rightarrow> bool"
  assumes header_step: "Q w \<Longrightarrow> conns w i = Some c \<Longrightarrow> reading c = Some Header_read \<Longrightarrow> Q (readHeader_done P eh i success data w)"
    and body_step: "Q w \<Longrightarrow> conns w i = Some c \<Longrightarrow> reading c = Some (Body_read tot) \<Longrightarrow>
      readBody_done P (mh t) eh i tot success data w = Inr w' \<Longrightarrow> Q w'"
begin

lemma feed_kept: "Q w \<Longrightarrow> feed n P (mh t) eh i s w = Inr (s', w') \<Longrightarrow> Q w'"
proof (induction n arbitrary: s w)
  case (Suc n)
  show ?case
  proof (cases "Option.bind (conns w i) reading")
    case None
    with Suc.prems show ?thesis by (simp add: feed.simps)
  next
    case (Some r)
    then obtain c where c: "conns w i = Some c" "reading c = Some r"
      by (auto simp: bind_eq_Some_conv)
    show ?thesis
    proof (cases r)
      case Header_read
      with c Suc.prems show ?thesis
        using Suc.IH [OF header_step [OF Suc.prems(1) c(1)]] by (auto simp: feed.simps Let_def split: if_splits)
    next
      case (Body_read tot)
      with c Suc.prems show ?thesis
        using Suc.IH [OF body_step [OF Suc.prems(1) c(1), of tot t]] by (auto simp: feed.simps Let_def err_simps split: if_splits)
    qed
  qed
qed (simp add: feed.simps)

lemma arrivals_kept: "Q w \<Longrightarrow> arrivals P mh eh i s xs w = Inr (s', w') \<Longrightarrow> Q w'"
proof (induction xs arbitrary: s w)
  case (Cons x xs)
  then show ?case
    by (cases x) (auto simp: err_simps dest: feed_kept)
qed simp

end

section \<open>Commuting updates\<close>

lemma strip_conn_fields [simp]:
  "conns (strip_conn i w) i = map_option strip_reader (conns w i)" "j \<noteq> i \<Longrightarrow> conns (strip_conn i w) j = conns w j"
  by (simp_all add: strip_conn_def)

text \<open>An update that does not look at the reading side commutes with its removal.\<close>

lemma strip_upd_conn:
  assumes "\<And>c. f (strip_reader c) = strip_reader (f c)"
  shows "upd_conn j f (strip_conn i w) = strip_conn i (upd_conn j f w)"
  using assms by (cases "conns w i") (auto simp: strip_conn_def upd_conn_def fun_upd_twist)

lemma strip_ops:
  "tcp_send P m (strip_reader c) = strip_reader (tcp_send P m c)" "tcp_disconnect (strip_reader c) = strip_reader (tcp_disconnect c)"
  "flushAndDisconnect (strip_reader c) = strip_reader (flushAndDisconnect c)" "setContext x (strip_reader c) = strip_reader (setContext x c)"
  by (simp_all add: strip_reader_def tcp_defs)

lemma same_reader_ops [simp]:
  "same_reader c c" "same_reader c (tcp_send P m c)" "same_reader c (tcp_disconnect c)" "same_reader c (flushAndDisconnect c)"
  "same_reader c (setContext x c)"
  by (simp_all add: same_reader_def tcp_defs)

end
