(* ===== verification/Fleet_Commands.thy ===== *)
theory Fleet_Commands
  imports Fleet_Typing Arrivals
begin

text \<open>
  An agent at the receiving end of a byte stream: what a sequence of mode commands does to it, against a specification that only
  knows command ids and modes.
\<close>

section \<open>The specification\<close>

text \<open>A command is an id and a mode; the state is the id of the last command and the mode. A repeated id is not applied.\<close>

definition follow :: "u32 \<times> u32 \<Rightarrow> u32 \<times> u32 \<Rightarrow> u32 \<times> u32" where
  "follow cmd st = (if fst cmd = fst st then st else cmd)"

text \<open>The answers expected: whether each command is accepted, under its id.\<close>

fun replies :: "u32 \<Rightarrow> (u32 \<times> u32) list \<Rightarrow> (bool \<times> u32) list" where
  "replies l [] = []"
| "replies l ((h, md) # cs) = (h \<noteq> l, h) # replies h cs"

definition is_reply :: "bool \<times> u32 \<Rightarrow> Message \<Rightarrow> bool" where
  "is_reply x r \<longleftrightarrow>
     (if fst x then msg_type (header r) = ACK \<and> payload r = Ack_serialize \<lparr>ack_cmd_id = snd x\<rparr>
      else msg_type (header r) = NACK \<and> (\<exists>reason. payload r = Nack_serialize \<lparr>nack_cmd_id = snd x, nack_reason = reason\<rparr>))"

text \<open>A well-formed mode command, and what it says.\<close>

definition mode_command :: "Message \<Rightarrow> bool" where
  "mode_command m \<longleftrightarrow> wf_message m \<and> msg_type (header m) = CMD_SET_MODE \<and> length (payload m) = 4"

definition command_of :: "Message \<Rightarrow> u32 \<times> u32" where
  "command_of m = (header_id (header m), case CmdSetMode_deserialize (payload m) CmdSetMode_fresh of Inl e \<Rightarrow> 0 | Inr pl \<Rightarrow> set_mode pl)"

section \<open>The handler and the read loop\<close>

lemma strip_agent [simp]:
  "current_mode (strip_conn i a) = current_mode a" "cmd_set_mode_header_id (strip_conn i a) = cmd_set_mode_header_id a"
  "agent_conn (strip_conn i a) = agent_conn a" "agent_counters (strip_conn i a) = agent_counters a" "self_id (strip_conn i a) = self_id a"
  "msg_ack (strip_conn i a) = msg_ack a" "msg_nack (strip_conn i a) = msg_nack a" "agent_inv (strip_conn i a) = agent_inv a"
  by (simp_all add: strip_conn_def) (simp_all add: upd_conn_def)

lemma strip_agent_update:
  "(strip_conn i a)\<lparr>agent_counters := x1\<rparr> = strip_conn i (a\<lparr>agent_counters := x1\<rparr>)"
  "(strip_conn i a)\<lparr>msg_ack := x2\<rparr> = strip_conn i (a\<lparr>msg_ack := x2\<rparr>)" "(strip_conn i a)\<lparr>msg_nack := x3\<rparr> = strip_conn i (a\<lparr>msg_nack := x3\<rparr>)"
  "(strip_conn i a)\<lparr>cmd_set_mode_header_id := x4\<rparr> = strip_conn i (a\<lparr>cmd_set_mode_header_id := x4\<rparr>)"
  "(strip_conn i a)\<lparr>current_mode := x5\<rparr> = strip_conn i (a\<lparr>current_mode := x5\<rparr>)"
  "(strip_conn i a)\<lparr>last_cmd_rc := x6\<rparr> = strip_conn i (a\<lparr>last_cmd_rc := x6\<rparr>)"
  by (simp_all add: strip_conn_def upd_conn_def)

lemma strip_send: "send_if_connected P m (strip_conn i a) = strip_conn i (send_if_connected P m a)"
  by (simp add: send_if_connected_def strip_upd_conn strip_ops split: option.split)

lemma strip_reply:
  "sendAck P t c (strip_conn i a) = strip_conn i (sendAck P t c a)"
  "sendNack P t c r (strip_conn i a) = strip_conn i (sendNack P t c r a)"
  by (simp_all add: sendAck_def sendNack_def getNextHeaderId_def Let_def strip_agent_update strip_send)

lemma reader_reply:
  assumes "conns a i = Some c"
  shows "\<exists>c'. conns (sendAck P t x a) i = Some c' \<and> same_reader c c'"
    "\<exists>c'. conns (sendNack P t x r a) i = Some c' \<and> same_reader c c'"
  using assms
  by (auto simp: sendAck_def sendNack_def getNextHeaderId_def Let_def send_if_connected_def upd_conn_def split: option.split)

interpretation agent_reader: frame_reader serialize "deserialize now" getHeaderSize wf_message sealed "agent_onMessage P"
  for now P
proof
  show "agent_onMessage P t i m (strip_conn i a) = apsnd (strip_conn i) (agent_onMessage P t i m a)" for t i m a
    by (simp add: agent_onMessage_def Let_def strip_agent_update strip_reply split: sum.split)
  show "\<exists>c'. conns b i = Some c' \<and> same_reader c c'" if "conns a i = Some c" "agent_onMessage P t i m a = (r, b)" for a i c t m r b
    using that reader_reply [of "a\<lparr>cmd_set_mode_header_id := x\<rparr>" for x]
      reader_reply [of "a\<lparr>cmd_set_mode_header_id := x, current_mode := y, last_cmd_rc := z\<rparr>" for x y z]
      reader_reply [of "a\<lparr>cmd_set_mode_header_id := x, last_cmd_rc := z\<rparr>" for x z] reader_reply [of a]
    by (auto simp: agent_onMessage_def Let_def split: if_splits sum.splits)
qed

interpretation agent_reads: read_steps P "agent_onMessage P" agent_error_handler i "agent_run P"
  for P i
  by unfold_locales (auto intro: ag_header ag_body)

section \<open>A sequence of commands\<close>

lemma command_step:
  assumes v: "agent_inv v" "agent_conn v = Some i" "conns v i = Some d" and m: "mode_command m"
    and c: "command_of m = (h, md)"
  shows "\<exists>b r. agent_onMessage P t i (sealed m) v = (None, b) \<and> agent_inv b \<and> agent_conn b = Some i \<and>
    conns b i = Some (d\<lparr>posted := posted d @ [Push_frame (parser_serialize P r)]\<rparr>) \<and> wf_message r \<and>
    is_reply (h \<noteq> cmd_set_mode_header_id v, h) r \<and>
    (cmd_set_mode_header_id b, current_mode b) = follow (h, md) (cmd_set_mode_header_id v, current_mode v)"
proof -
  have seal: "header (sealed m) = header m" "payload (sealed m) = payload m"
    by (simp_all add: sealed_def)
  have h: "h = header_id (header (sealed m))" "msg_type (header (sealed m)) = CMD_SET_MODE" "4 \<le> length (payload (sealed m))"
    using m c by (simp_all add: command_of_def mode_command_def seal)
  have ok: "h \<noteq> cmd_set_mode_header_id v \<longleftrightarrow> msg_type (header (sealed m)) = CMD_SET_MODE \<and>
      header_id (header (sealed m)) \<noteq> cmd_set_mode_header_id v \<and> 4 \<le> length (payload (sealed m))"
    using h by simp
  obtain b r where b: "agent_onMessage P t i (sealed m) v = (None, b)"
      "conns b i = Some (d\<lparr>posted := posted d @ [Push_frame (parser_serialize P r)]\<rparr>)" "wf_message r"
    and ans: "if h \<noteq> cmd_set_mode_header_id v then msg_type (header r) = ACK \<and>
          payload r = Ack_serialize \<lparr>ack_cmd_id = header_id (header (sealed m))\<rparr> \<and>
          CmdSetMode_deserialize (payload (sealed m)) CmdSetMode_fresh = Inr \<lparr>set_mode = current_mode b\<rparr> \<and> last_cmd_rc b = 0 \<and>
          cmd_set_mode_header_id b = header_id (header (sealed m))
        else msg_type (header r) = NACK \<and> current_mode b = current_mode v \<and>
          (\<exists>reason. payload r = Nack_serialize \<lparr>nack_cmd_id = header_id (header (sealed m)), nack_reason = reason\<rparr>)"
    using inv_answers [OF v ok, of P t i] by blast
  have "cmd_set_mode_header_id b = h"
    using b(1) h by (auto simp: agent_onMessage_def Let_def split: if_splits sum.splits)
  moreover have "agent_conn b = Some i"
    using b(1) v(2) by (auto simp: agent_onMessage_def Let_def split: if_splits sum.splits)
  moreover have "agent_inv b"
    using onMessage_inv [OF v(1) b(1)] .
  moreover have "is_reply (h \<noteq> cmd_set_mode_header_id v, h) r"
    using ans h(1) by (simp add: is_reply_def split: if_splits)
  moreover have "current_mode b = snd (follow (h, md) (cmd_set_mode_header_id v, current_mode v))"
  proof (cases "h = cmd_set_mode_header_id v")
    case True
    with ans show ?thesis by (simp add: follow_def)
  next
    case False
    with ans have "CmdSetMode_deserialize (payload m) CmdSetMode_fresh = Inr \<lparr>set_mode = current_mode b\<rparr>"
      by (simp add: seal)
    with c False show ?thesis by (simp add: command_of_def follow_def)
  qed
  moreover have "fst (follow (h, md) (cmd_set_mode_header_id v, current_mode v)) = h"
    by (simp add: follow_def)
  ultimately show ?thesis
    using b by (intro exI [of _ b] exI [of _ r]) (simp add: prod_eq_iff)
qed

lemma handled_commands:
  assumes "agent_inv v" "agent_conn v = Some i" "conns v i = Some d" "\<And>t m. (t, m) \<in> set tms \<Longrightarrow> mode_command m"
  shows "\<exists>b rs. handle_all (agent_onMessage P) i (map (apsnd sealed) tms) v = (None, b) \<and>
    conns b i = Some (d\<lparr>posted := posted d @ map (\<lambda>r. Push_frame (parser_serialize P r)) rs\<rparr>) \<and>
    list_all2 is_reply (replies (cmd_set_mode_header_id v) (map (\<lambda>x. command_of (snd x)) tms)) rs \<and> (\<forall>r \<in> set rs. wf_message r) \<and>
    (cmd_set_mode_header_id b, current_mode b) =
      fold follow (map (\<lambda>x. command_of (snd x)) tms) (cmd_set_mode_header_id v, current_mode v)"
  using assms
proof (induction tms arbitrary: v d)
  case Nil
  then show ?case by (intro exI [of _ v] exI [of _ "[]"]) simp
next
  case (Cons tm tms)
  obtain t m h md where tm: "tm = (t, m)" "command_of m = (h, md)"
    by (cases tm, cases "command_of (snd tm)") auto
  obtain b r where b: "agent_onMessage P t i (sealed m) v = (None, b)" "agent_inv b" "agent_conn b = Some i"
      "conns b i = Some (d\<lparr>posted := posted d @ [Push_frame (parser_serialize P r)]\<rparr>)" "wf_message r"
      "is_reply (h \<noteq> cmd_set_mode_header_id v, h) r"
      "(cmd_set_mode_header_id b, current_mode b) = follow (h, md) (cmd_set_mode_header_id v, current_mode v)"
    using command_step [OF Cons.prems(1-3) _ tm(2), of P t] Cons.prems(4) [of t m] tm(1) by auto
  obtain e rs where e: "handle_all (agent_onMessage P) i (map (apsnd sealed) tms) b = (None, e)"
      "conns e i = Some (d\<lparr>posted := (posted d @ [Push_frame (parser_serialize P r)]) @ map (\<lambda>r. Push_frame (parser_serialize P r)) rs\<rparr>)"
      "list_all2 is_reply (replies (cmd_set_mode_header_id b) (map (\<lambda>x. command_of (snd x)) tms)) rs" "\<forall>r \<in> set rs. wf_message r"
      "(cmd_set_mode_header_id e, current_mode e) =
        fold follow (map (\<lambda>x. command_of (snd x)) tms) (cmd_set_mode_header_id b, current_mode b)"
    using Cons.IH [OF b(2-4)] Cons.prems(4) by fastforce
  have "cmd_set_mode_header_id b = h"
    using b(7) by (auto simp: follow_def split: if_splits)
  with b e tm show ?case
    by (intro exI [of _ e] exI [of _ "r # rs"]) simp
qed

lemma commands_followed:
  assumes a: "agent_run P a" "agent_conn a = Some i" "conns a i = Some c" "receptive getHeaderSize c" and P: "P = BinaryMessageParser u"
    and ms: "\<And>t m. (t, m) \<in> set tms \<Longrightarrow> mode_command m"
  shows "\<exists>a' c' rs. arrivals P (agent_onMessage P) agent_error_handler i [] (map (apsnd serialize) tms) a = Inr ([], a') \<and>
    agent_run P a' \<and> conns a' i = Some c' \<and> receptive getHeaderSize c' \<and>
    (cmd_set_mode_header_id a', current_mode a') =
      fold follow (map (\<lambda>x. command_of (snd x)) tms) (cmd_set_mode_header_id a, current_mode a) \<and>
    posted c' = posted c @ map (\<lambda>r. Push_frame (serialize r)) rs \<and> (\<forall>r \<in> set rs. wf_message r) \<and>
    list_all2 is_reply (replies (cmd_set_mode_header_id a) (map (\<lambda>x. command_of (snd x)) tms)) rs"
proof -
  let ?v = "strip_conn i a"
  have "agent_inv ?v" "agent_conn ?v = Some i" "conns ?v i = Some (strip_reader c)"
    using agent_run_inv [OF a(1)] a(2,3) by simp_all
  from handled_commands [OF this, of tms P] ms obtain b rs where b:
      "handle_all (agent_onMessage P) i (map (apsnd sealed) tms) ?v = (None, b)"
      "conns b i = Some ((strip_reader c)\<lparr>posted := posted (strip_reader c) @ map (\<lambda>r. Push_frame (parser_serialize P r)) rs\<rparr>)"
      "list_all2 is_reply (replies (cmd_set_mode_header_id ?v) (map (\<lambda>x. command_of (snd x)) tms)) rs" "\<forall>r \<in> set rs. wf_message r"
      "(cmd_set_mode_header_id b, current_mode b) =
        fold follow (map (\<lambda>x. command_of (snd x)) tms) (cmd_set_mode_header_id ?v, current_mode ?v)"
    by blast
  have wf: "(t, m) \<in> set tms \<Longrightarrow> wf_message m" for t m
    using ms by (auto simp: mode_command_def)
  obtain a' c' where a': "arrivals P (agent_onMessage P) agent_error_handler i [] (map (apsnd serialize) tms) a = Inr ([], a')"
      "conns a' i = Some c'" "receptive getHeaderSize c'" "strip_conn i a' = b"
    using agent_reader.arrive_all [OF _ a(3,4) b(1), of u agent_error_handler] wf unfolding P BinaryMessageParser_api by blast
  moreover have "strip_reader c' = (strip_reader c)\<lparr>posted := posted (strip_reader c) @ map (\<lambda>r. Push_frame (serialize r)) rs\<rparr>"
    using b(2) a'(2) unfolding a'(4) [symmetric] by (simp add: P)
  then have "posted c' = posted c @ map (\<lambda>r. Push_frame (serialize r)) rs"
    by (auto simp: strip_reader_def dest: arg_cong [of _ _ posted])
  moreover have "agent_run P a'"
    using agent_reads.arrivals_kept [OF a(1) a'(1)] .
  ultimately show ?thesis
    using b(3-5) unfolding a'(4) [symmetric] by auto
qed

section \<open>Property\<close>

text \<open>C6: an agent follows the commands it receives. When the bytes of any sequence of mode commands arrive on its connection, each frame at
  its own time, the agent reads them all without an error and goes on, ready for the next; its mode and its last command id are what
  the specification says, a repeated command being skipped; and it has queued exactly one answer per command, in order: an \<^verbatim>\<open>ACK\<close>
  for an applied one, a \<^verbatim>\<open>NACK\<close> for a repeated one, each under the command's id.\<close>

theorem commands_followed_in_order:
  assumes a: "agent_run P a" "agent_conn a = Some i" "conns a i = Some c" "receptive getHeaderSize c" and P: "P = BinaryMessageParser u"
    and ms: "\<And>t m. (t, m) \<in> set tms \<Longrightarrow> mode_command m"
  shows "\<exists>a' c' rs. arrivals P (agent_onMessage P) agent_error_handler i [] (map (apsnd serialize) tms) a = Inr ([], a') \<and>
    agent_run P a' \<and> conns a' i = Some c' \<and> receptive getHeaderSize c' \<and>
    (cmd_set_mode_header_id a', current_mode a') =
      fold follow (map (\<lambda>x. command_of (snd x)) tms) (cmd_set_mode_header_id a, current_mode a) \<and>
    posted c' = posted c @ map (\<lambda>r. Push_frame (serialize r)) rs \<and> (\<forall>r \<in> set rs. wf_message r) \<and>
    list_all2 is_reply (replies (cmd_set_mode_header_id a) (map (\<lambda>x. command_of (snd x)) tms)) rs"
  using assms by (rule commands_followed)

lemma receptive_sample_agent:
  "\<exists>c. conns sample_agent 0 = Some c \<and> receptive getHeaderSize c"
  by (simp add: sample_agent_def connect_done_def sendHello_def send_unchecked_def getNextHeaderId_def new_Agent_def upd_conn_def Let_def
      startReporting_def set_timer_def tcp_defs new_TcpComm_def receptive_def getHeaderSize_def)

theorem commands_followed_in_order_witness:
  "\<exists>a'. arrivals (BinaryMessageParser 0) (agent_onMessage (BinaryMessageParser 0)) agent_error_handler 0 []
       (map (apsnd serialize) [(1, new_Message 0 CMD_SET_MODE [0, 0, 0, 1] 0 5 0), (2, new_Message 0 CMD_SET_MODE [0, 0, 0, 9] 0 5 0),
         (3, new_Message 0 CMD_SET_MODE [0, 0, 0, 2] 0 6 0)]) sample_agent = Inr ([], a') \<and> current_mode a' = 2"
proof -
  let ?tms = "[(1, new_Message 0 CMD_SET_MODE [0, 0, 0, 1] 0 5 0), (2, new_Message 0 CMD_SET_MODE [0, 0, 0, 9] 0 5 0),
         (3, new_Message 0 CMD_SET_MODE [0, 0, 0, 2] 0 6 0)]"
  obtain c where c: "conns sample_agent 0 = Some c" "receptive getHeaderSize c"
    using receptive_sample_agent by blast
  have cmd: "mode_command (new_Message 0 CMD_SET_MODE [x, y, z, v] 0 h 0)"
      "command_of (new_Message 0 CMD_SET_MODE [0, 0, 0, v] 0 h 0) = (h, ucast v)" for x y z v h
    by (simp_all add: mode_command_def wf_message_def new_Message_def command_of_def CmdSetMode_deserialize_def CmdSetMode_fresh_def
        read_u32_be_def byte_at_def)
  have "\<And>t m. (t, m) \<in> set ?tms \<Longrightarrow> mode_command m"
    using cmd(1) by auto
  from commands_followed_in_order [OF sample_agent_run sample_agent_simps(1) c refl, of ?tms] this
  show ?thesis
    by (auto simp: cmd(2) follow_def sample_agent_simps)
qed

end
