(* ===== verification/Fleet_Dispatch.thy ===== *)
theory Fleet_Dispatch
  imports Fleet_Properties Fleet_Commands
begin

text \<open>
  The frames the controller puts on its connections: well-formed mode commands, apart from what the owner of the command bus
  sends. The message object of a session becomes such a command when the first command is issued, and only then can it be
  encoded.
\<close>

section \<open>The invariant\<close>

definition ready_object :: "Message option \<Rightarrow> AgentTcpSession \<Rightarrow> bool" where
  "ready_object x s \<longleftrightarrow>
     (\<exists>m. x = Some m \<and> wf_message m \<and> msg_type (header m) = CMD_SET_MODE \<and> (pending_cmds s \<noteq> [] \<longrightarrow> length (payload m) = 4))"

definition dispatched :: "IMessageParser \<Rightarrow> Message set \<Rightarrow> bytes set" where
  "dispatched P B = parser_serialize P ` (Collect mode_command \<union> B)"

definition ctl_typed :: "bytes set \<Rightarrow> Controller \<Rightarrow> bool" where
  "ctl_typed F w \<longleftrightarrow>
     (\<forall>n s. sess w n = Some s \<longrightarrow> ready_object (heap (msgs w) (msg_set_mode s)) s) \<and>
     (\<forall>i c. conns w i = Some c \<longrightarrow> outgoing c \<subseteq> F)"

text \<open>Sessions may go, and what the invariant does not look at may change.\<close>

lemma ctl_typed_weaken:
  assumes "ctl_typed F w" "\<And>n s. sess w' n = Some s \<Longrightarrow> sess w n = Some s \<and> heap (msgs w') (msg_set_mode s) = heap (msgs w) (msg_set_mode s)"
    "conns w' = conns w"
  shows "ctl_typed F w'"
  using assms unfolding ctl_typed_def by metis

lemma ctl_typed_fields [simp]:
  "ctl_typed F (w\<lparr>ctl_store := x1\<rparr>) = ctl_typed F w" "ctl_typed F (w\<lparr>policies := x2\<rparr>) = ctl_typed F w"
  "ctl_typed F (w\<lparr>overload_mode := x3\<rparr>) = ctl_typed F w" "ctl_typed F (w\<lparr>last_policy_file_time := x4\<rparr>) = ctl_typed F w"
  "ctl_typed F (w\<lparr>accept_pending := x5\<rparr>) = ctl_typed F w" "ctl_typed F (w\<lparr>timer_pending := x6\<rparr>) = ctl_typed F w"
  "ctl_typed F (w\<lparr>metrics := x7\<rparr>) = ctl_typed F w" "ctl_typed F (w\<lparr>ctl_shutting_down := x8\<rparr>) = ctl_typed F w"
  "ctl_typed F (w\<lparr>ctl_counters := x9\<rparr>) = ctl_typed F w" "ctl_typed F (w\<lparr>sessions := x10\<rparr>) = ctl_typed F w"
  "ctl_typed F (w\<lparr>next_sess := x11\<rparr>) = ctl_typed F w" "ctl_typed F (upd_tracker g w) = ctl_typed F w"
  "ctl_typed F (add_active d w) = ctl_typed F w" "ctl_typed F (add_failures k w) = ctl_typed F w"
  "ctl_typed F (doAccept w) = ctl_typed F w" "ctl_typed F (startHealthCheck w) = ctl_typed F w"
  "ctl_typed F (clearPolicies w) = ctl_typed F w" "ctl_typed F (addPolicy p w) = ctl_typed F w"
  by (simp_all add: ctl_typed_def upd_tracker_def add_active_def add_failures_def doAccept_def startHealthCheck_def clearPolicies_def
      addPolicy_def)

lemma ctl_typed_upd_conn:
  assumes "ctl_typed F w" "\<And>c. conns w i = Some c \<Longrightarrow> outgoing (f c) \<subseteq> outgoing c \<union> F"
  shows "ctl_typed F (upd_conn i f w)"
proof -
  have "outgoing d \<subseteq> F" if d: "conns (upd_conn i f w) j = Some d" for j d
  proof (cases "j = i")
    case True
    then obtain c where c: "conns w i = Some c" "d = f c"
      using d by (auto simp: upd_conn_def)
    then have "outgoing c \<subseteq> F"
      using assms(1) by (simp add: ctl_typed_def)
    with assms(2) [OF c(1)] c(2) show ?thesis by blast
  next
    case False
    with d assms(1) show ?thesis
      by (simp add: upd_conn_def ctl_typed_def)
  qed
  with assms(1) show ?thesis
    by (simp add: ctl_typed_def)
qed

lemma ctl_typed_post: "ctl_typed F w \<Longrightarrow> set (frames ts) \<subseteq> F \<Longrightarrow> ctl_typed F (post_on cn ts w)"
  by (auto simp: post_on_def post_def outgoing_def intro!: ctl_typed_upd_conn split: option.split)

lemma ctl_typed_put:
  assumes "ctl_typed F w" "sess w n = Some s" "msg_set_mode s' = msg_set_mode s" "pending_cmds s = [] \<Longrightarrow> pending_cmds s' = []"
  shows "ctl_typed F (put_session n s' w)"
proof -
  have "ready_object (heap (msgs w) (msg_set_mode s)) s"
    using assms(1,2) by (simp add: ctl_typed_def)
  then have "ready_object (heap (msgs w) (msg_set_mode s)) s'"
    using assms(4) by (auto simp: ready_object_def)
  with assms show ?thesis
    by (auto simp: ctl_typed_def)
qed

lemma ctl_typed_erase: "ctl_typed F w \<Longrightarrow> ctl_typed F (erase_session aid w)"
  by (erule ctl_typed_weaken) (auto simp: fun_upd_def split: option.splits if_splits)

lemma ctl_typed_acquire:
  assumes "ctl_typed F w" "reg_inv w" "acquire m (msgs w) = (p, ms)"
  shows "ctl_typed F (w\<lparr>msgs := ms\<rparr>)"
  using msg_pool.live_object_kept(2) [OF reg_inv_parts(5) [OF assms(2)] assms(3)] reg_inv_parts(2) [OF assms(2)]
  by (intro ctl_typed_weaken [OF assms(1)]) (auto simp: session_ok_def)

section \<open>Handlers\<close>

lemma ctl_typed_error: "ctl_typed F w \<Longrightarrow> ctl_typed F (ctl_error_handler i ec w)"
  by (auto simp: ctl_error_handler_def Let_def ctl_typed_erase split: option.split)

lemma ctl_typed_register:
  assumes w: "ctl_typed F w" "reg_inv w"
  shows "ctl_typed F (register_agent now ms i aid w)"
proof -
  obtain p M where a: "acquire (new_Message ms CMD_SET_MODE [] 0 0 0) (msgs w) = (p, M)" by force
  let ?s = "\<lparr>session_conn = Some i, session_id = aid, last_heartbeat = now, pending_cmds = [],
           payload_set_mode = CmdSetMode_fresh, msg_set_mode = p, has_tracker = True\<rparr>"
  let ?v = "put_session (next_sess w) ?s (w\<lparr>msgs := M, next_sess := Suc (next_sess w)\<rparr>)"
  have "heap M p = Some (new_Message ms CMD_SET_MODE [] 0 0 0)"
    using msg_pool.acq_obj [OF reg_inv_parts(5) [OF w(2)] a] .
  then have "ready_object (heap M p) ?s"
    by (simp add: ready_object_def wf_new_Message) (simp add: new_Message_def)
  then have v: "ctl_typed F ?v"
    using ctl_typed_acquire [OF w a] by (auto simp: ctl_typed_def)
  have "ctl_typed F (drop_session n (?v\<lparr>sessions := xs\<rparr>))" for n xs
    by (rule ctl_typed_weaken [OF v]) (auto simp: release_def split: option.splits if_splits)
  with v have "ctl_typed F (assign_session aid (next_sess w) ?v)"
    by (simp add: assign_session_def Let_def split: option.split)
  then have "ctl_typed F (upd_conn i (setContext (Some (next_sess w))) (assign_session aid (next_sess w) ?v))"
    by (rule ctl_typed_upd_conn) (simp add: setContext_def outgoing_def)
  then show ?thesis
    by (simp add: register_agent_def new_AgentTcpSession_def a setAgentId_def Let_def)
qed

lemma ctl_typed_ack:
  assumes "ctl_typed F w" "sess w n = Some s" "handleAck now c s w = (s', w')"
  shows "ctl_typed F (put_session n s' w')"
proof -
  obtain f where "w' = upd_tracker f w"
    using snd_handleAck [of now c s w] assms(3) by auto
  with assms show ?thesis
    by (intro ctl_typed_put [of F w' n s]) (auto simp: handleAck_def Let_def split: option.splits)
qed

lemma ctl_typed_message:
  assumes w: "ctl_typed F w" "reg_inv w" and m: "ctl_onMessage now ms i m w = (r, w')"
  shows "ctl_typed F w'"
proof (cases "lock_context i w")
  case None
  have "ctl_typed F (upd_conn i tcp_disconnect w)"
    by (rule ctl_typed_upd_conn [OF w(1)]) simp
  with None show ?thesis
    using m w(1) ctl_typed_register [OF w] by (auto simp: ctl_onMessage_def split: if_splits sum.splits)
next
  case (Some x)
  obtain n s where x: "x = (n, s)" by force
  with Some have s: "sess w n = Some s"
    using lock_context_sess by blast
  have "ctl_typed F (put_session n (updateHeartbeat now s) w)"
    by (rule ctl_typed_put [OF w(1) s]) (simp_all add: updateHeartbeat_def)
  then show ?thesis
    using m w(1) ctl_typed_ack [OF w(1) s]
    by (auto simp: ctl_onMessage_def Some x split: if_splits sum.splits prod.splits)
qed

interpretation typed_ctl: tcp_client "ctl_onMessage now ms" ctl_error_handler "\<lambda>w. reg_inv w \<and> ctl_typed F w"
  for now ms F
proof
  show "reg_inv (upd_conn i f w) \<and> ctl_typed F (upd_conn i f w)" if "reg_inv w \<and> ctl_typed F w"
    "\<And>c. conns w i = Some c \<Longrightarrow> user_context (f c) = user_context c \<and> outgoing (f c) \<subseteq> outgoing c \<and> prefix (wire c) (wire (f c))" for w i f
    using that reg_inv_upd_conn [of w i f] by (auto intro: ctl_typed_upd_conn)
qed (auto intro: ctl_typed_message reg_inv_message ctl_typed_error reg_inv_error)

section \<open>Loops\<close>

text \<open>Whatever is encoded for a pending command is the session's object, which is a mode command then.\<close>

lemma pending_frames:
  assumes w: "ctl_typed F w" "reg_inv w" "dispatched P {} \<subseteq> F" and s: "sess w n = Some s"
  shows "set (frames (concat (map (\<lambda>(k, pc). due_tasks P (heap (msgs w)) now pc) (pending_cmds s)))) \<subseteq> F"
    "set (frames (concat (map (\<lambda>(k, pc). send_tasks P (heap (msgs w)) (pc_msg pc)) (pending_cmds s)))) \<subseteq> F"
proof -
  have one: "set (frames (send_tasks P (heap (msgs w)) (pc_msg pc))) \<subseteq> F" if pc: "(k, pc) \<in> set (pending_cmds s)" for k pc
  proof -
    have "pending_msgs s \<subseteq> {msg_set_mode s}"
      using reg_inv_parts(2) [OF w(2) s] by (simp add: session_ok_def)
    then have p: "pc_msg pc = msg_set_mode s"
      using pc by (auto simp: pending_msgs_def)
    have "ready_object (heap (msgs w) (msg_set_mode s)) s"
      using w(1) s by (simp add: ctl_typed_def)
    then obtain m where "heap (msgs w) (msg_set_mode s) = Some m" "mode_command m"
      using pc by (auto simp: ready_object_def mode_command_def)
    with p w(3) show ?thesis
      by (auto simp: send_tasks_def dispatched_def)
  qed
  have all: "set (frames (concat (map (\<lambda>(k, pc). g pc) xs))) \<subseteq> F"
    if "\<And>k pc. (k, pc) \<in> set xs \<Longrightarrow> set (frames (g pc)) \<subseteq> F" for g :: "PendingCommand \<Rightarrow> task list" and xs :: "(u32 \<times> PendingCommand) list"
    using that by (induction xs) force+
  show "set (frames (concat (map (\<lambda>(k, pc). due_tasks P (heap (msgs w)) now pc) (pending_cmds s)))) \<subseteq> F"
    using one by (intro all) (auto simp: due_tasks_def)
  show "set (frames (concat (map (\<lambda>(k, pc). send_tasks P (heap (msgs w)) (pc_msg pc)) (pending_cmds s)))) \<subseteq> F"
    using one by (intro all)
qed

lemma advance_all_Nil [simp]: "advance_all now [] = []"
  by (simp add: advance_all_def List.map_filter_simps)

lemma ctl_typed_health_one:
  assumes w: "ctl_typed F w" "reg_inv w" "dispatched P {} \<subseteq> F" and x: "(aid, n) \<in> set (sessions w)"
  shows "ctl_typed F (health_one P t0 t1 aid n w)"
proof -
  obtain s where s: "sess w n = Some s" "map_of (sessions w) aid = Some n"
    using x reg_inv_parts(1) [OF w(2)] by (auto simp: registry_ok_def)
  have "ctl_typed F (put_session n (fst (checkCommandTimeouts P t1 s w)) (snd (checkCommandTimeouts P t1 s w)))"
    using ctl_typed_post [OF w(1) pending_frames(1) [OF w s(1)]] s(1)
    by (intro ctl_typed_put [where s = s]) (simp_all add: checkCommandTimeouts_eq add_failures_def)
  moreover have "ctl_typed F (post_on (session_conn s) [Close_socket] w)"
    by (rule ctl_typed_post [OF w(1)]) simp
  ultimately show ?thesis
    unfolding health_one_eq [OF s] by (simp add: ctl_typed_erase)
qed

lemma ctl_typed_health:
  "reg_inv w \<Longrightarrow> ctl_typed F w \<Longrightarrow> dispatched P {} \<subseteq> F \<Longrightarrow> distinct (map fst xs) \<Longrightarrow> set xs \<subseteq> set (sessions w) \<Longrightarrow>
   ctl_typed F (health_loop P clk xs w)"
proof (induction P clk xs w rule: health_loop.induct)
  case (2 P clk aid n rest w)
  let ?w = "health_one P (clk 0) (clk 1) aid n w"
  have "reg_inv ?w" "set (sessions w) - {(aid, n)} \<subseteq> set (sessions ?w)" "ctl_typed F ?w"
    using health_one_sessions [of w aid n] ctl_typed_health_one [of F w P aid n] "2.prems" by simp_all
  moreover have "(aid, n) \<notin> set rest"
    using "2.prems"(4) by force
  ultimately show ?case
    using "2.IH" "2.prems"(3-5) by (simp del: One_nat_def) blast
qed simp

lemma command_message_typed:
  "msg_type (header m) = CMD_SET_MODE \<Longrightarrow> mode_command (command_message mode hid m)"
  by (simp add: mode_command_def command_message_def wf_message_def CmdSetMode_serialize_def)

lemma ctl_typed_command_one:
  assumes w: "ctl_typed F w" "reg_inv w" "dispatched P {} \<subseteq> F"
  shows "ctl_typed F (command_one P t0 t1 mode hid n w)"
proof (cases "sess w n")
  case None
  then show ?thesis using w(1) by (simp add: command_one_def)
next
  case (Some s)
  obtain i m c where s: "session_conn s = Some i" "heap (msgs w) (msg_set_mode s) = Some m" "msg_type (header m) = CMD_SET_MODE"
    by (rule session_facts [OF w(2) Some])
  let ?m = "command_message mode hid m"
  note m = command_message_typed [OF s(3), of mode hid]
  have other: "msg_set_mode t \<noteq> msg_set_mode s" if "sess w k = Some t" "k \<noteq> n" for k t
    using reg_inv_parts(3) [OF w(2)] that Some unfolding separate_msgs_def by blast
  have "ready_object (Some ?m) (commanded mode hid t1 s)"
    using m by (simp add: ready_object_def mode_command_def)
  then have "ctl_typed F (put_session n (commanded mode hid t1 s) (w\<lparr>msgs := store (msg_set_mode s) ?m (msgs w)\<rparr>))"
    using w(1) other by (auto simp: ctl_typed_def store_def commanded_def)
  moreover have "set (frames [Push_frame (parser_serialize P ?m)]) \<subseteq> F"
    using m w(3) by (auto simp: dispatched_def)
  moreover have "put_session n t (post_on cn ts v) = post_on cn ts (put_session n t v)" for t cn ts v
    by (simp add: post_on_def upd_conn_def put_session_def split: option.split)
  ultimately show ?thesis
    using w(1) command_one_eq [OF Some s(2,1), of P t0 t1 mode hid] by (simp add: ctl_typed_post)
qed

lemma ctl_typed_command:
  "ctl_typed F w \<Longrightarrow> reg_inv w \<Longrightarrow> dispatched P {} \<subseteq> F \<Longrightarrow> ctl_typed F (command_loop P clk mode hid xs w)"
  by (induction P clk mode hid xs w rule: command_loop.induct) (simp_all add: ctl_typed_command_one reg_inv_command_one)

lemma ctl_typed_policies:
  "ctl_typed F w \<Longrightarrow> reg_inv w \<Longrightarrow> dispatched P {} \<subseteq> F \<Longrightarrow> ctl_typed F (policy_loop P clk avg pols w)"
proof (induction P clk avg pols w rule: policy_loop.induct)
  case (2 P clk avg pol pols w)
  have "ctl_typed F (apply_policy P (clk 0) avg pol w)"
    using "2.prems" by (auto simp: apply_policy_def getNextId_def Let_def intro!: ctl_typed_command)
  moreover have "reg_inv (apply_policy P (clk 0) avg pol w)"
    using "2.prems"(2) by (auto simp: apply_policy_def getNextId_def Let_def intro!: reg_inv_command)
  ultimately show ?case
    using "2.IH" "2.prems"(3) by simp
qed simp

lemma ctl_typed_flush: "ctl_typed F w \<Longrightarrow> reg_inv w \<Longrightarrow> dispatched P {} \<subseteq> F \<Longrightarrow> ctl_typed F (flush_loop P xs w)"
proof (induction P xs w rule: flush_loop.induct)
  case (2 P aid n rest w)
  have "ctl_typed F (flush_one P n w)"
    using "2.prems" pending_frames(2) [of F w P n]
    by (auto simp: flush_one_def flush_posts intro!: ctl_typed_put ctl_typed_post split: option.split)
  with "2.IH" "2.prems"(2,3) show ?case
    by (simp add: reg_inv_flush_one)
qed simp

lemma ctl_typed_send:
  assumes "ctl_typed F w" "\<And>m. heap (msgs w) p = Some m \<Longrightarrow> parser_serialize P m \<in> F"
  shows "ctl_typed F (session_send P p s w)"
  using assms by (auto simp: session_send_posts send_tasks_def intro!: ctl_typed_post split: option.split)

lemma ctl_typed_broadcast:
  "ctl_typed F w \<Longrightarrow> (\<And>m. heap (msgs w) p = Some m \<Longrightarrow> parser_serialize P m \<in> F) \<Longrightarrow> ctl_typed F (broadcast_loop P clk p xs w)"
proof (induction P clk p xs w rule: broadcast_loop.induct)
  case (2 P clk p aid n rest w)
  have "ctl_typed F (broadcast_one P (clk 0) p n w)"
    using "2.prems" by (auto simp: broadcast_one_def intro: ctl_typed_send split: option.split)
  moreover have "msgs (broadcast_one P (clk 0) p n w) = msgs w"
    by (simp add: broadcast_one_def session_send_posts split: option.split)
  ultimately show ?case
    using 2 by simp
qed simp

section \<open>Runs\<close>

lemma ctl_typed_load: "ctl_typed F w \<Longrightarrow> loadPolicies J junk f w = Inr w' \<Longrightarrow> ctl_typed F w'"
  by (auto simp: loadPolicies_def Let_def split: sum.splits bool.splits if_splits)

lemma ctl_typed_tick:
  assumes w: "ctl_typed F w" "reg_inv w" "dispatched P {} \<subseteq> F" and h: "health_check_done P J junk f g clk clk' ec w = Inr w'"
  shows "ctl_typed F w'"
proof (cases "ec = success")
  case True
  then obtain v where v: "checkPolicyUpdate J junk f g (w\<lparr>timer_pending := False\<rparr>) = Inr v"
      "w' = startHealthCheck (check_sessions P clk clk' v)"
    using h by (auto simp: health_check_done_def Let_def err_simps)
  have "ctl_typed F v"
    using v(1) w(1) ctl_typed_load [of F "w\<lparr>timer_pending := False\<rparr>" J junk g v]
    by (auto simp: checkPolicyUpdate_def split: sum.splits bool.splits if_splits)
  moreover have r: "reg_inv v"
    using check_update_inv [OF _ v(1)] w(2) by simp
  moreover have "distinct (map fst (sessions v))"
    using reg_inv_parts(1) [OF r] by (simp add: registry_ok_def)
  ultimately show ?thesis
    using w(3) v(2) by (auto simp: check_sessions_def Let_def intro!: ctl_typed_policies ctl_typed_health reg_inv_health)
next
  case False
  with h w(1) show ?thesis
    by (auto simp: health_check_done_def Let_def)
qed

lemma ctl_typed_accept:
  assumes w: "ctl_typed F w" "reg_inv w"
  shows "ctl_typed F (accept_done now ms ec w)"
proof (cases "ec = success")
  case True
  obtain p M where a: "acquire (new_Message ms CMD_SET_MODE [] 0 0 0) (msgs w) = (p, M)" by force
  let ?i = "next_conn w"
  let ?v = "w\<lparr>accept_pending := False, conns := (conns w)(?i \<mapsto> new_TcpComm True), next_conn := Suc ?i, msgs := M\<rparr>"
  have "ctl_typed F (w\<lparr>msgs := M\<rparr>)"
    by (rule ctl_typed_acquire [OF w a])
  then have "ctl_typed F ?v"
    by (simp add: ctl_typed_def)
  then have "ctl_typed F (upd_conn ?i tcp_start (upd_conn ?i setErrorHandler (upd_conn ?i setMessageHandler (add_active 1 ?v))))"
    by (intro ctl_typed_upd_conn) simp_all
  then have "ctl_typed F (destroy_session s (upd_conn ?i tcp_start (upd_conn ?i setErrorHandler (upd_conn ?i setMessageHandler (add_active 1 ?v)))))" for s
    by (rule ctl_typed_weaken) (simp_all add: destroy_session_def release_def)
  with True show ?thesis
    by (simp add: accept_done_def new_AgentTcpSession_def a Let_def)
qed (use w(1) in \<open>simp add: accept_done_def\<close>)

lemma ctl_typed_start:
  assumes "new_Controller J junk f ms = Inr w"
  shows "ctl_typed F w"
proof -
  let ?w = "\<lparr>conns = Map.empty, msgs = ms, tracker = new_MetricsTracker, sess = Map.empty, next_sess = 0, next_conn = 0,
        sessions = [], ctl_store = new_StateStore, policies = [], last_policy_file_time = 0, ctl_counters = [],
        overload_mode = False, ctl_shutting_down = False, accept_pending = False, timer_pending = False, metrics = new_MetricsServer\<rparr>"
  have "ctl_typed F ?w"
    by (simp add: ctl_typed_def)
  with assms show ?thesis
    using ctl_typed_load [of F ?w J junk f] by (auto simp: new_Controller_def err_simps)
qed

lemma dispatched_mono: "dispatched P {} \<subseteq> dispatched P B"
  by (auto simp: dispatched_def)

lemma ctl_typed_step:
  "ctl_step P J junk B w w' \<Longrightarrow> reg_inv w \<Longrightarrow> ctl_typed (dispatched P B) w \<Longrightarrow> ctl_typed (dispatched P B) w'"
proof (induction rule: ctl_step.induct)
  case (step_tick w ec f g clk clk' w')
  then show ?case
    using ctl_typed_tick [OF _ _ dispatched_mono] by blast
next
  case (step_header w i c ec data)
  then show ?case
    using typed_ctl.readHeader_done_inv [of w] by blast
next
  case (step_body w i c tot now ms ec data w')
  then show ?case
    using typed_ctl.readBody_done_inv [of w] by blast
next
  case (step_written w i c b rest ec)
  then show ?case
    using typed_ctl.write_completion_inv [of w] by blast
next
  case (step_posted w i c k)
  then show ?case
    using typed_ctl.run_posted_inv [of w] by blast
next
  case (step_message w i c now ms m r w')
  then show ?case
    using ctl_typed_message by blast
next
  case (step_pool_store p w m)
  then show ?case
    by (auto intro!: ctl_typed_weaken [OF step_pool_store(4)] simp: store_def)
next
  case (step_pool_release p w)
  then show ?case
    by (auto intro!: ctl_typed_weaken [OF step_pool_release(4)] simp: release_def)
next
  case (step_pool_acquire m w p ms)
  then show ?case
    using ctl_typed_acquire by blast
next
  case (step_signal w ec)
  then show ?case
    using dispatched_mono by (auto simp: ctl_signal_done_def shutdownController_def intro!: ctl_typed_flush)
qed (auto simp: ctl_typed_accept ctl_typed_error broadcastCommand_def sendCommandTo_def putStore_def dispatched_def
    intro!: ctl_typed_broadcast ctl_typed_send split: option.split)

lemma ctl_run_typed: "ctl_run P J junk B w \<Longrightarrow> ctl_typed (dispatched P B) w"
  by (induction rule: ctl_run.induct) (auto simp: ctl_typed_start intro: ctl_typed_step ctl_run_inv)

section \<open>A concrete dispatch\<close>

text \<open>The sample controller after a mode command was handed to the command bus for its agent and written to the wire.\<close>

definition sample_command :: Message where
  "sample_command = new_Message 0 CMD_SET_MODE [0, 0, 0, 1] 0 9 0"

definition dispatched_ctl :: Controller where
  "dispatched_ctl =
     (let (p, ms) = acquire sample_command (msgs sample_ctl);
          w = sendCommandTo (BinaryMessageParser 0) 0 100 p (sample_ctl\<lparr>msgs := ms\<rparr>)
      in write_done ctl_error_handler 0 success (upd_conn 0 (run_posted 0) w))"

lemma sample_mode_command: "mode_command sample_command" "command_of sample_command = (9, 1)"
  by (simp_all add: sample_command_def mode_command_def wf_message_def new_Message_def command_of_def CmdSetMode_deserialize_def
      CmdSetMode_fresh_def read_u32_be_def byte_at_def)

lemma dispatched_ctl_run:
  "ctl_run (BinaryMessageParser 0) no_json HELLO {sample_command} dispatched_ctl"
  "\<exists>c. conns dispatched_ctl 0 = Some c \<and> wire c = [serialize sample_command] \<and> receptive getHeaderSize c \<and> is_open c"
proof -
  let ?P = "BinaryMessageParser 0"
  obtain p ms where a: "acquire sample_command (msgs sample_ctl) = (p, ms)" by force
  let ?w1 = "sample_ctl\<lparr>msgs := ms\<rparr>"
  let ?w2 = "sendCommandTo ?P 0 100 p ?w1"
  let ?w3 = "upd_conn 0 (run_posted 0) ?w2"
  have p: "heap ms p = Some sample_command"
    using msg_pool.acq_obj [OF reg_inv_parts(5) [OF ctl_run_inv [OF sample_ctl_run]] a] .
  have "isHealthy 0 sample_session ?w1"
    by (simp add: isHealthy_def sample_session_def sample_ctl_simps to_seconds_def tdiv_def isConnected_def setContext_def
        ready_conn_def tcp_defs new_TcpComm_def)
  then have w2: "?w2 = upd_conn 0 (tcp_send ?P sample_command) ?w1"
    using p by (simp add: sendCommandTo_def sample_ctl_simps session_send_def comm_send_def) (simp add: sample_session_def comm_send_def p)
  then have c3: "\<exists>c. conns ?w3 0 = Some c \<and> writing c = [serialize sample_command] \<and> write_queue c = [serialize sample_command] \<and> wire c = [] \<and>
      receptive getHeaderSize c \<and> is_open c \<and> \<not> tcp_shutting_down c"
    by (simp add: sample_ctl_simps run_posted_def tcp_defs ready_conn_def new_TcpComm_def setContext_def receptive_def getHeaderSize_def)
  have r1: "ctl_run ?P no_json HELLO {sample_command} ?w1"
    using sample_ctl_run a by (rule ctl_pool_acquire)
  have r2: "ctl_run ?P no_json HELLO {sample_command} ?w2"
    by (rule ctl_send_to [OF r1]) (simp add: p)
  have r3: "ctl_run ?P no_json HELLO {sample_command} ?w3"
    by (rule ctl_posted [OF r2, of _ "tcp_send ?P sample_command (setContext (Some 0) ready_conn)"])
      (simp_all add: w2 sample_ctl_simps tcp_defs)
  have d: "dispatched_ctl = write_done ctl_error_handler 0 success ?w3"
    by (simp add: dispatched_ctl_def a)
  show "ctl_run ?P no_json HELLO {sample_command} dispatched_ctl"
    unfolding d using c3 by (auto intro: ctl_written [OF r3])
  show "\<exists>c. conns dispatched_ctl 0 = Some c \<and> wire c = [serialize sample_command] \<and> receptive getHeaderSize c \<and> is_open c"
    unfolding d using c3 by (auto simp: write_done_def tcp_defs receptive_def)
qed

section \<open>Property\<close>

text \<open>C10: what the controller sends is well typed, and well-typed commands do not go wrong: every frame the controller ever puts on a
  connection encodes either a message the owner of the command bus gave it, or a well-formed mode command with a payload of
  that type; such a frame is decoded to that command, and any agent in any state takes it without an exception and
  moves to the mode and the command id the specification says. This covers resends, which encode whatever the session's
  message object holds then.\<close>

theorem controller_frames_well_typed:
  assumes "ctl_run (BinaryMessageParser u) J junk B w" "conns w i = Some c" "f \<in> outgoing c"
  shows "\<exists>m. f = serialize m \<and> (m \<in> B \<or> mode_command m \<and>
    deserialize t (f @ rest) = Inr (Some (sealed m), length f) \<and>
    (\<exists>a'. agent_onMessage P t' j (sealed m) a = (None, a') \<and>
      (cmd_set_mode_header_id a', current_mode a') = follow (command_of m) (cmd_set_mode_header_id a, current_mode a)))"
proof -
  have "outgoing c \<subseteq> dispatched (BinaryMessageParser u) B"
    using ctl_run_typed [OF assms(1)] assms(2) by (simp add: ctl_typed_def)
  then obtain m where m: "f = serialize m" "m \<in> B \<or> mode_command m"
    using assms(3) by (auto simp: dispatched_def)
  moreover have "\<exists>a'. agent_onMessage P t' j (sealed m) a = (None, a') \<and>
      (cmd_set_mode_header_id a', current_mode a') = follow (command_of m) (cmd_set_mode_header_id a, current_mode a)"
    if "mode_command m"
    using that set_mode.des_ok_iff [of "payload m" CmdSetMode_fresh]
    by (auto simp: mode_command_def agent_onMessage_def command_of_def follow_def sealed_def Let_def split: sum.splits)
  ultimately show ?thesis
    using deserialize_serialize [of m t rest] by (auto simp: mode_command_def)
qed

theorem controller_frames_well_typed_witness:
  "\<exists>c f m. conns dispatched_ctl 0 = Some c \<and> f \<in> outgoing c \<and> f = serialize m \<and> mode_command m"
proof -
  obtain c where c: "conns dispatched_ctl 0 = Some c" "serialize sample_command \<in> outgoing c"
    using dispatched_ctl_run(2) by (auto simp: outgoing_def)
  show ?thesis
    using controller_frames_well_typed [OF dispatched_ctl_run(1) c] c sample_mode_command(1) by auto
qed

end
