(* ===== verification/Fleet_Streams.thy ===== *)
theory Fleet_Streams
  imports Fleet_Dispatch
begin

text \<open>
  Both directions of a connection as byte streams: whatever a controller has written to a connection steers the agent at the other
  end as the specification says, and whatever an agent has written is taken by the controller without an error, message by
  message.
\<close>

section \<open>The controller as a reader\<close>

lemma strip_ctl [simp]:
  "sessions (strip_conn i w) = sessions w" "sess (strip_conn i w) = sess w" "next_sess (strip_conn i w) = next_sess w"
  "msgs (strip_conn i v) = msgs v" "ctl_store (strip_conn i w) = ctl_store w" "tracker (strip_conn i v) = tracker v"
  "lock_context j (strip_conn i w) = lock_context j w"
  by (simp_all add: strip_conn_def lock_context_def)
    (cases "j = i"; cases "conns w i"; simp add: getContext_def strip_reader_def)

lemma strip_ctl_update:
  "(strip_conn i w)\<lparr>ctl_store := x1\<rparr> = strip_conn i (w\<lparr>ctl_store := x1\<rparr>)" "(strip_conn i w)\<lparr>msgs := x2\<rparr> = strip_conn i (w\<lparr>msgs := x2\<rparr>)"
  "(strip_conn i w)\<lparr>sess := x3\<rparr> = strip_conn i (w\<lparr>sess := x3\<rparr>)" "(strip_conn i w)\<lparr>sessions := x4\<rparr> = strip_conn i (w\<lparr>sessions := x4\<rparr>)"
  "(strip_conn i w)\<lparr>next_sess := x5\<rparr> = strip_conn i (w\<lparr>next_sess := x5\<rparr>)" "put_session n s (strip_conn i w) = strip_conn i (put_session n s w)"
  "upd_tracker f (strip_conn i w) = strip_conn i (upd_tracker f w)"
  for w :: Controller
  by (simp_all add: strip_conn_def upd_conn_def put_session_def upd_tracker_def)

lemma strip_drop: "drop_session n (strip_conn i w) = strip_conn i (drop_session n w)"
  by (simp add: drop_session_def destroy_session_def strip_ctl_update split: option.split)

lemma strip_register: "register_agent now ms j aid (strip_conn i w) = strip_conn i (register_agent now ms j aid w)"
  by (simp add: register_agent_def new_AgentTcpSession_def assign_session_def Let_def case_prod_beta strip_ctl_update strip_drop
      strip_upd_conn strip_ops split: option.split)

lemma strip_handleAck: "handleAck now c s (strip_conn i w) = apsnd (strip_conn i) (handleAck now c s w)"
  for w :: Controller
  by (simp add: handleAck_def Let_def strip_ctl_update split: option.split)

lemma conns_handleAck: "handleAck now c s w = (s', w') \<Longrightarrow> conns w' = conns w"
  by (auto simp: handleAck_def Let_def split: option.splits if_splits)

lemma conns_register: "conns (register_agent now ms i aid w) i = map_option (setContext (Some (next_sess w))) (conns w i)"
  by (simp add: register_agent_def new_AgentTcpSession_def assign_session_def Let_def case_prod_beta split: option.split)

interpretation ctl_reader: frame_reader serialize "deserialize now" getHeaderSize wf_message sealed "\<lambda>(t, ms). ctl_onMessage t ms"
  for now
proof
  show "(case x of (t, ms) \<Rightarrow> ctl_onMessage t ms) i m (strip_conn i w) = apsnd (strip_conn i) ((case x of (t, ms) \<Rightarrow> ctl_onMessage t ms) i m w)" for x i m w
    by (cases x)
      (simp add: ctl_onMessage_def Let_def case_prod_beta strip_ctl_update strip_register strip_handleAck strip_upd_conn strip_ops
        split: option.split sum.split)
  show "\<exists>c'. conns w' i = Some c' \<and> same_reader c c'" if "conns w i = Some c" "(case x of (t, ms) \<Rightarrow> ctl_onMessage t ms) i m w = (r, w')" for w i c x m r w'
    using that conns_register [of _ _ i _ w]
    by (cases x) (auto simp: ctl_onMessage_def dest: conns_handleAck split: option.splits if_splits sum.splits prod.splits)
qed

interpretation ctl_reads: read_steps P "\<lambda>(t, ms). ctl_onMessage t ms" ctl_error_handler i "ctl_run P J junk B"
  for P J junk B i
  by unfold_locales (auto intro: ctl_header ctl_body)

section \<open>Streams of messages\<close>

lemma sealed_simps [simp]: "header (sealed m) = header m" "payload (sealed m) = payload m"
  by (simp_all add: sealed_def)

text \<open>Payloads of an agent's messages decode, so the controller's handler does not throw on them.\<close>

lemma agent_message_accepted:
  assumes "agent_message aid m"
  shows "fst (ctl_onMessage now ms j (sealed m) w) = None"
proof -
  have ok: "\<exists>x. Hello_deserialize (payload m) Hello_fresh = Inr x" if "msg_type (header m) = HELLO"
    using that assms hello.des_ok_iff [of "payload m" Hello_fresh] by (auto simp: agent_message_def message_type_defs Hello_serialize_def)
  moreover have "\<exists>x. State_deserialize (payload m) State_fresh = Inr x" if "msg_type (header m) = STATE"
    using that assms state.des_ok_iff [of "payload m" State_fresh] by (auto simp: agent_message_def message_type_defs)
  moreover have "\<exists>x. Ack_deserialize (payload m) Ack_fresh = Inr x" if "msg_type (header m) = ACK"
    using that assms ack.des_ok_iff [of "payload m" Ack_fresh] by (auto simp: agent_message_def message_type_defs)
  moreover have "\<exists>x. Nack_deserialize (payload m) Nack_fresh = Inr x" if "msg_type (header m) = NACK"
    using that assms nack.des_ok_iff [of "payload m" Nack_fresh] by (auto simp: agent_message_def message_type_defs)
  ultimately show ?thesis
    by (auto simp: ctl_onMessage_def split: option.split sum.split prod.split)
qed

lemma agent_messages_accepted:
  assumes "\<And>t m. (t, m) \<in> set tms \<Longrightarrow> agent_message aid m"
  shows "\<exists>v. handle_all (\<lambda>(t, ms). ctl_onMessage t ms) i (map (apsnd sealed) tms) w = (None, v)"
  using assms
proof (induction tms arbitrary: w)
  case (Cons tm tms)
  obtain t ms m where tm: "tm = ((t, ms), m)"
    by (metis surj_pair)
  then have "fst (ctl_onMessage t ms i (sealed m) w) = None"
    using Cons.prems [of "(t, ms)" m] agent_message_accepted by simp
  then obtain w1 where "ctl_onMessage t ms i (sealed m) w = (None, w1)"
    by (metis prod.collapse)
  with Cons.IH [of w1] Cons.prems tm show ?case by auto
qed simp

text \<open>A stream of frames of one kind is the encoding of a stream of messages.\<close>

lemma stream_messages:
  assumes "set fs \<subseteq> serialize ` A"
  obtains ms where "fs = map serialize ms" "set ms \<subseteq> A"
proof -
  have "fs \<in> map serialize ` lists A"
    using assms by (simp flip: lists_image add: in_lists_conv_set subset_iff)
  with that show thesis by auto
qed

lemma timed_frames: "zip ts (map f ms) = map (apsnd f) (zip ts ms)"
  by (simp add: zip_map2) (auto simp: apsnd_def map_prod_def)

lemma zip_snd: "length ts = length ms \<Longrightarrow> map (\<lambda>x. f (snd x)) (zip ts ms) = map f ms"
  by (simp flip: map_map [unfolded comp_def])

section \<open>Properties\<close>

text \<open>The controller steers its agents. Let the owner of the command bus send mode commands only, and let the bytes a controller has
  written to a connection, at any point of any run, arrive at an agent that is ready to read, each frame at its own time. These
  bytes are the encodings of a sequence of mode commands; the agent reads them all without an error and ends in the mode
  and with the command id the specification gives for this sequence.\<close>

lemma controller_stream_followed:
  assumes w: "ctl_run (BinaryMessageParser u) J junk B w" "B \<subseteq> Collect mode_command" "conns w i = Some c"
    and a: "agent_run P a" "agent_conn a = Some j" "conns a j = Some d" "receptive getHeaderSize d" and P: "P = BinaryMessageParser v"
    and ts: "length ts = length (wire c)"
  shows "\<exists>ms a' d'. wire c = map serialize ms \<and> set ms \<subseteq> Collect mode_command \<and>
    arrivals P (agent_onMessage P) agent_error_handler j [] (zip ts (wire c)) a = Inr ([], a') \<and>
    agent_run P a' \<and> conns a' j = Some d' \<and> receptive getHeaderSize d' \<and>
    (cmd_set_mode_header_id a', current_mode a') = fold follow (map command_of ms) (cmd_set_mode_header_id a, current_mode a)"
proof -
  have "set (wire c) \<subseteq> outgoing c" "outgoing c \<subseteq> dispatched (BinaryMessageParser u) B"
    using ctl_run_typed [OF w(1)] w(3) by (auto simp: ctl_typed_def outgoing_def)
  then have "set (wire c) \<subseteq> serialize ` Collect mode_command"
    using Un_absorb2 [OF w(2)] by (auto simp: dispatched_def)
  then obtain ms where ms: "wire c = map serialize ms" "set ms \<subseteq> Collect mode_command"
    by (rule stream_messages)
  then have "\<And>t m. (t, m) \<in> set (zip ts ms) \<Longrightarrow> mode_command m"
    by (auto dest: set_zip_rightD)
  from commands_followed [OF a P, of "zip ts ms"] this ms ts show ?thesis
    by (auto simp: timed_frames zip_snd)
qed

text \<open>The controller takes whatever its agents write. Let the bytes an agent has written to a connection, at any point of any run,
  arrive at a connection of a controller that is ready to read. They are the encodings of messages of the five kinds an agent sends;
  the controller reads them all without an error, its read loop is ready for the next frame, and apart from that loop's
  buffer its state is what handling these messages one after the other gives.\<close>

lemma agent_stream_handled:
  assumes a: "agent_run (BinaryMessageParser u) a" "conns a j = Some d"
    and w: "ctl_run (BinaryMessageParser v) J junk B w" "conns w i = Some c" "receptive getHeaderSize c"
    and ts: "length ts = length (wire d)"
  shows "\<exists>ms w' c'. wire d = map serialize ms \<and> set ms \<subseteq> Collect (agent_message (self_id a)) \<and>
    arrivals (BinaryMessageParser v) (\<lambda>(t, ms). ctl_onMessage t ms) ctl_error_handler i [] (zip ts (wire d)) w = Inr ([], w') \<and>
    ctl_run (BinaryMessageParser v) J junk B w' \<and> conns w' i = Some c' \<and> receptive getHeaderSize c' \<and>
    handle_all (\<lambda>(t, ms). ctl_onMessage t ms) i (zip ts (map sealed ms)) (strip_conn i w) = (None, strip_conn i w')"
proof -
  have "set (wire d) \<subseteq> outgoing d" "outgoing d \<subseteq> typed_frames (BinaryMessageParser u) (self_id a)"
    using agent_run_typed [OF a(1)] a(2) by (auto simp: agent_typed_def outgoing_def)
  then have "set (wire d) \<subseteq> serialize ` Collect (agent_message (self_id a))"
    by (auto simp: typed_frames_def)
  then obtain ms where ms: "wire d = map serialize ms" "set ms \<subseteq> Collect (agent_message (self_id a))"
    by (rule stream_messages)
  then have typed: "\<And>t m. (t, m) \<in> set (zip ts ms) \<Longrightarrow> agent_message (self_id a) m"
    by (auto dest: set_zip_rightD)
  then obtain b where b: "handle_all (\<lambda>(t, ms). ctl_onMessage t ms) i (map (apsnd sealed) (zip ts ms)) (strip_conn i w) = (None, b)"
    using agent_messages_accepted by blast
  obtain w' c' where w': "arrivals (BinaryMessageParser v) (\<lambda>(t, ms). ctl_onMessage t ms) ctl_error_handler i []
        (map (apsnd serialize) (zip ts ms)) w = Inr ([], w')"
      "conns w' i = Some c'" "receptive getHeaderSize c'" "strip_conn i w' = b"
    using ctl_reader.arrive_all [OF _ w(2,3) b, of v ctl_error_handler] typed unfolding BinaryMessageParser_api agent_message_def by blast
  with ctl_reads.arrivals_kept [OF w(1) w'(1)] ms b show ?thesis
    by (auto simp: timed_frames)
qed

text \<open>An agent whose first frame is on the wire.\<close>

definition greeting_agent :: Agent where
  "greeting_agent = write_done agent_error_handler 0 success (upd_conn 0 (run_posted 0) sample_agent)"

lemma greeting_agent_run:
  "agent_run (BinaryMessageParser 0) greeting_agent" "\<exists>d. conns greeting_agent 0 = Some d \<and> length (wire d) = 1 \<and> receptive getHeaderSize d \<and> is_open d"
proof -
  have c: "\<exists>f c. conns sample_agent 0 = Some c \<and> posted c = [Push_frame f] \<and> wire c = [] \<and> write_queue c = [] \<and> writing c = [] \<and>
      is_open c \<and> \<not> tcp_shutting_down c \<and> receptive getHeaderSize c"
    by (simp add: sample_agent_def connect_done_def sendHello_def send_unchecked_def getNextHeaderId_def new_Agent_def upd_conn_def Let_def
        startReporting_def set_timer_def tcp_defs new_TcpComm_def receptive_def getHeaderSize_def)
  then obtain c where "conns sample_agent 0 = Some c" "0 < length (posted c)" by auto
  then show "agent_run (BinaryMessageParser 0) greeting_agent"
    unfolding greeting_agent_def by (intro ag_written ag_posted [OF sample_agent_run])
  show "\<exists>d. conns greeting_agent 0 = Some d \<and> length (wire d) = 1 \<and> receptive getHeaderSize d \<and> is_open d"
    using c by (auto simp: greeting_agent_def run_posted_def write_done_def tcp_defs receptive_def)
qed

end
