(* ===== verification/Fleet_Observe.thy ===== *)
theory Fleet_Observe
  imports Fleet_Runs
begin

text \<open>
  What the handlers of the controller leave alone. A part of the state that posting to a connection, the contexts, the
  counters, the message pool, the registry and the store cannot change is left alone by every message, every failed connection and
  every loop over the sessions; one that the policies' own state cannot change either is left alone by the health check.
\<close>

locale observation =
  fixes obs :: "Controller \<Rightarrow> 'o"
  assumes obs_post: "obs (post_on cn ts w) = obs w"
    and obs_context: "obs (upd_conn i (setContext x) w) = obs w"
    and obs_tracker: "obs (upd_tracker f w) = obs w"
    and obs_msgs: "obs (w\<lparr>msgs := ms\<rparr>) = obs w"
    and obs_sess: "obs (w\<lparr>sess := x1\<rparr>) = obs w"
    and obs_sessions: "obs (w\<lparr>sessions := x2\<rparr>) = obs w"
    and obs_next_sess: "obs (w\<lparr>next_sess := x3\<rparr>) = obs w"
    and obs_store: "obs (w\<lparr>ctl_store := x4\<rparr>) = obs w"
begin

lemmas obs_updates [simp] =
  obs_post obs_context obs_tracker obs_msgs obs_sess obs_sessions obs_next_sess obs_store

lemma obs_session [simp]:
  "obs (put_session n s w) = obs w" "obs (add_active d w) = obs w" "obs (add_failures k w) = obs w" "obs (destroy_session s w) = obs w"
  "obs (session_send P p s w) = obs w" "obs (putStore S w) = obs w"
  by (simp_all add: put_session_def add_active_def add_failures_def destroy_session_def session_send_posts putStore_def)

lemma obs_disconnect [simp]: "obs (upd_conn i tcp_disconnect w) = obs w"
  by (rule trans [OF _ obs_post [of "Some i" "[Close_socket]"]]) (simp add: post_on_def tcp_posts)

lemma obs_drop [simp]:
  "obs (drop_session n w) = obs w" "obs (erase_session aid w) = obs w" "obs (assign_session aid n w) = obs w"
  by (simp_all add: drop_session_def erase_session_def assign_session_def Let_def split: option.split)

lemma obs_register [simp]: "obs (register_agent now ms i aid w) = obs w"
  by (simp add: register_agent_def new_AgentTcpSession_def Let_def case_prod_beta)

lemma obs_ack: "handleAck now c s w = (s', w') \<Longrightarrow> obs w' = obs w"
  using snd_handleAck [of now c s w] by auto

lemma obs_message: "ctl_onMessage now ms i m w = (r, w') \<Longrightarrow> obs w' = obs w"
  by (auto simp: ctl_onMessage_def dest: obs_ack split: option.splits if_splits sum.splits prod.splits)

lemma obs_error [simp]: "obs (ctl_error_handler i ec w) = obs w"
  by (simp add: ctl_error_handler_def Let_def split: option.split prod.split)

lemma obs_bodies [simp]:
  "obs (health_one P t0 t1 aid n w) = obs w" "obs (command_one P t0 t1 mode hid n w) = obs w" "obs (broadcast_one P now p n w) = obs w"
  "obs (flush_one P n w) = obs w" "obs (sendCommandTo P now aid p w) = obs w"
  by (simp_all add: health_one_def checkCommandTimeouts_eq disconnect_posts command_one_def getSetModeMsg_def broadcast_one_def
      flush_one_def flush_posts sendCommandTo_def Let_def split: option.split)

lemma obs_loops [simp]:
  "obs (health_loop P clk xs w) = obs w" "obs (command_loop P clk mode hid xs w) = obs w" "obs (broadcast_loop P clk p xs w) = obs w"
  "obs (flush_loop P xs w) = obs w"
proof -
  show "obs (health_loop P clk xs w) = obs w"
    by (induction P clk xs w rule: health_loop.induct) simp_all
  show "obs (command_loop P clk mode hid xs w) = obs w"
    by (induction P clk mode hid xs w rule: command_loop.induct) simp_all
  show "obs (broadcast_loop P clk p xs w) = obs w"
    by (induction P clk p xs w rule: broadcast_loop.induct) simp_all
  show "obs (flush_loop P xs w) = obs w"
    by (induction P xs w rule: flush_loop.induct) simp_all
qed

end

locale policy_observation = observation +
  assumes obs_mode: "obs (w\<lparr>overload_mode := x5\<rparr>) = obs w"
    and obs_counters: "obs (w\<lparr>ctl_counters := x6\<rparr>) = obs w"
begin

lemma obs_policies [simp]: "obs (policy_loop P clk avg pols w) = obs w"
proof (induction P clk avg pols w rule: policy_loop.induct)
  case (2 P clk avg pol pols w)
  have "obs (apply_policy P (clk 0) avg pol w) = obs w"
    by (simp add: apply_policy_def getNextId_def Let_def obs_mode obs_counters)
  with 2 show ?case by simp
qed simp

lemma obs_check [simp]: "obs (check_sessions P clk clk' w) = obs w"
  by (simp add: check_sessions_def Let_def)

end

end
