(* ===== verification/Fleet_Link.thy ===== *)
theory Fleet_Link
  imports Fleet_Streams Fleet_Observe
begin

text \<open>
  A controller and an agent joined by a connection, as one system. Both work on their own, in any order; the network hands the
  frames one side has written to the other side, in order, at any later time. The safety of the system: the agent's mode is always
  explained by the commands it has been handed so far. Its progress: nothing that is on its way is ever stuck.
\<close>

section \<open>What a side has written\<close>

text \<open>The frames on the wire of each connection, and whether its socket is open.\<close>

definition ends :: "'a io_world_scheme \<Rightarrow> nat \<Rightarrow> (bytes list \<times> bool) option" where
  "ends w i = map_option (\<lambda>c. (wire c, is_open c)) (conns w i)"

definition wires :: "'a io_world_scheme \<Rightarrow> nat \<Rightarrow> bytes list option" where
  "wires w i = map_option fst (ends w i)"

definition open_end :: "'a io_world_scheme \<Rightarrow> nat \<Rightarrow> bool" where
  "open_end w i \<longleftrightarrow> map_option snd (ends w i) = Some True"

definition grown :: "(nat \<Rightarrow> bytes list option) \<Rightarrow> 'a io_world_scheme \<Rightarrow> bool" where
  "grown x w \<longleftrightarrow> (\<forall>i fs. x i = Some fs \<longrightarrow> (\<exists>gs. wires w i = Some gs \<and> prefix fs gs))"

lemma ends_eq: "ends w' = ends w \<Longrightarrow> wires w' = wires w" "ends w' = ends w \<Longrightarrow> open_end w' = open_end w"
  by (simp_all add: wires_def open_end_def fun_eq_iff)

lemma wires_Some: "wires w i = Some fs \<longleftrightarrow> (\<exists>c. conns w i = Some c \<and> wire c = fs)"
  by (auto simp: wires_def ends_def)

lemma ends_fields [simp]:
  "ends (w\<lparr>msgs := x1\<rparr>) = ends w" "ends (w\<lparr>tracker := x2\<rparr>) = ends w" "ends (v\<lparr>sess := x3\<rparr>) = ends v"
  "ends (v\<lparr>sessions := x4\<rparr>) = ends v" "ends (v\<lparr>next_sess := x5\<rparr>) = ends v" "ends (v\<lparr>ctl_store := x6\<rparr>) = ends v"
  "ends (v\<lparr>overload_mode := x7\<rparr>) = ends v" "ends (v\<lparr>ctl_counters := x8\<rparr>) = ends v" "ends (v\<lparr>policies := x9\<rparr>) = ends v"
  "ends (v\<lparr>metrics := x10\<rparr>) = ends v" "ends (v\<lparr>ctl_shutting_down := x11\<rparr>) = ends v"
  "ends (v\<lparr>timer_pending := x13\<rparr>) = ends v"
  for v :: Controller
  by (simp_all add: ends_def fun_eq_iff)

lemma ends_upd_conn: "(\<And>c. conns w i = Some c \<Longrightarrow> wire (f c) = wire c \<and> is_open (f c) = is_open c) \<Longrightarrow> ends (upd_conn i f w) = ends w"
  by (cases "conns w i") (simp_all add: ends_def upd_conn_def fun_eq_iff)

lemma grown_refl: "ends w = ends v \<Longrightarrow> grown (wires v) w"
  using ends_eq(1) [of w v] by (auto simp: grown_def)

lemma grown_upd_conn:
  assumes "grown x w" "\<And>c. conns w i = Some c \<Longrightarrow> prefix (wire c) (wire (f c))"
  shows "grown x (upd_conn i f w)"
  unfolding grown_def
proof (intro allI impI)
  fix k fs assume "x k = Some fs"
  then obtain gs where gs: "wires w k = Some gs" "prefix fs gs"
    using assms(1) by (auto simp: grown_def)
  show "\<exists>gs. wires (upd_conn i f w) k = Some gs \<and> prefix fs gs"
  proof (cases "k = i")
    case True
    with gs(1) obtain c where c: "conns w i = Some c" "wire c = gs"
      by (auto simp: wires_Some)
    with True gs(2) assms(2) [OF c(1)] show ?thesis
      by (auto simp: wires_Some upd_conn_def intro: prefix_order.trans)
  next
    case False
    then have "wires (upd_conn i f w) k = wires w k"
      by (simp add: wires_def ends_def upd_conn_def)
    with gs show ?thesis by simp
  qed
qed

interpretation wire_obs: policy_observation "ends :: Controller \<Rightarrow> nat \<Rightarrow> (bytes list \<times> bool) option"
  by unfold_locales (auto simp: post_on_def post_def setContext_def upd_tracker_def ends_upd_conn split: option.split)

interpretation grown_client: tcp_client "ctl_onMessage now ms" ctl_error_handler "grown x"
  for now ms x
proof
  have same: "grown x w'" if "grown x w" "ends w' = ends w" for w w'
    using that ends_eq(1) [of w' w] by (simp add: grown_def)
  show "grown x w'" if "grown x w" "ctl_onMessage now ms i m w = (r, w')" for w i m r w'
    using that(1) wire_obs.obs_message [OF that(2)] by (rule same)
  show "grown x (ctl_error_handler i ec w)" if "grown x w" for w i ec
    using that by (rule same) simp
qed (auto intro: grown_upd_conn)

text \<open>No step of a controller takes back what was written.\<close>

lemma load_ends: "loadPolicies J junk f w = Inr w' \<Longrightarrow> ends w' = ends w"
  by (auto simp: loadPolicies_def Let_def ends_def fun_eq_iff split: sum.splits bool.splits if_splits)

lemma tick_ends:
  assumes "health_check_done P J junk f g clk clk' ec w = Inr w'"
  shows "ends w' = ends w"
proof -
  have start: "ends (startHealthCheck v) = ends v" for v
    by (simp add: startHealthCheck_def)
  have "ends v = ends w" if "checkPolicyUpdate J junk f g (w\<lparr>timer_pending := False\<rparr>) = Inr v" for v
    using that by (auto simp: checkPolicyUpdate_def dest!: load_ends split: sum.splits bool.splits if_splits)
  with assms show ?thesis
    by (auto simp: health_check_done_def Let_def err_simps start split: if_splits)
qed

lemma accept_grows: "reg_inv w \<Longrightarrow> grown (wires w) (accept_done now ms ec w)"
proof -
  assume "reg_inv w"
  then have "conns w (next_conn w) = None"
    using reg_inv_parts(4) [of w] by (simp add: contexts_ok_def)
  moreover have "conns (accept_done now ms ec w) k = conns w k" if "k \<noteq> next_conn w" for k
    using that by (simp add: accept_done_def new_AgentTcpSession_def destroy_session_def add_active_def doAccept_def Let_def
        case_prod_beta upd_conn_def upd_tracker_def)
  ultimately show ?thesis
    unfolding grown_def wires_Some by (metis option.distinct(1) prefix_order.refl)
qed

lemma step_grows: "ctl_step P J junk B w w' \<Longrightarrow> reg_inv w \<Longrightarrow> grown (wires w) w'"
proof (induction rule: ctl_step.induct)
  case (step_accept w now ms ec)
  then show ?case by (simp add: accept_grows)
next
  case (step_tick w ec f g clk clk' w')
  then show ?case using tick_ends grown_refl by blast
next
  case (step_header w i c ec data)
  show ?case using grown_client.readHeader_done_inv [OF grown_refl [OF refl]] .
next
  case (step_body w i c tot now ms ec data w')
  then show ?case using grown_client.readBody_done_inv [OF grown_refl [OF refl]] by blast
next
  case (step_written w i c b rest ec)
  show ?case using grown_client.write_completion_inv [OF grown_refl [OF refl]] .
next
  case (step_posted w i c k)
  then show ?case using grown_client.run_posted_inv [OF grown_refl [OF refl]] by blast
next
  case (step_message w i c now ms m r w')
  then show ?case using wire_obs.obs_message grown_refl by blast
next
  case (step_signal w ec)
  show ?case
    by (intro grown_refl) (simp add: ctl_signal_done_def shutdownController_def)
qed (auto intro!: grown_refl simp: broadcastCommand_def clearPolicies_def addPolicy_def)

text \<open>Reading writes nothing.\<close>

lemma header_keeps_ends [simp]: "ends (readHeader_done P eh i success data w) = ends w"
  by (simp add: readHeader_done_def header_received_def readBody_def Let_def ends_upd_conn)

lemma body_keeps_ends:
  assumes mh: "\<And>m w r w'. mh i m w = (r, w') \<Longrightarrow> ends w' = ends w" and eh: "\<And>ec w. ends (eh i ec w) = ends w"
    and r: "readBody_done P mh eh i tot success data w = Inr w'"
  shows "ends w' = ends w"
proof -
  have call: "ends (call_err_handler eh i ec v) = ends v" for ec v
    by (simp add: call_err_handler_def eh split: option.split)
  have rh: "ends (upd_conn i readHeader v) = ends v" for v
    by (simp add: readHeader_def ends_upd_conn)
  have "ends v' = ends v" if "dispatch_frame P mh eh i tot c v = Inr v'" for c v v'
    using that by (auto simp: dispatch_frame_def caught_def call rh dest!: mh split: sum.splits prod.splits option.splits if_splits)
  then show ?thesis
    using r by (auto simp: readBody_done_def Let_def ends_upd_conn split: option.splits)
qed

section \<open>The agent on its own\<close>

text \<open>What an agent does by itself while its connection holds: its timers and reports, its writes, its shutdown.\<close>

inductive agent_own :: "IMessageParser \<Rightarrow> Agent \<Rightarrow> Agent \<Rightarrow> bool" for P where
  own_expire: "waiting a = Some x \<Longrightarrow> agent_own P a (a\<lparr>waiting := None, expired := expired a @ [x]\<rparr>)"
| own_report: "expired a = xs @ Report # ys \<Longrightarrow> report_done P load t1 t2 success (a\<lparr>expired := xs @ ys\<rparr>) = Inr b \<Longrightarrow> agent_own P a b"
| own_written: "agent_own P a (write_done agent_error_handler i success a)"
| own_posted: "conns a i = Some c \<Longrightarrow> k < length (posted c) \<Longrightarrow> agent_own P a (upd_conn i (run_posted k) a)"
| own_signal: "agent_own P a (agent_signal_done ec a)"

lemma own_run: "agent_own P a b \<Longrightarrow> agent_run P a \<Longrightarrow> agent_run P b"
  by (induction rule: agent_own.induct) (blast intro: ag_expire ag_report ag_written ag_posted ag_signal)+

text \<open>It keeps its mode, its command id and its connection, and the read loop of every connection.\<close>

definition steered :: "Agent \<Rightarrow> u32 \<times> u32" where
  "steered a = (cmd_set_mode_header_id a, current_mode a)"

definition readers :: "'a io_world_scheme \<Rightarrow> nat \<Rightarrow> (read_op option \<times> bytes \<times> bool \<times> bool) option" where
  "readers w i = map_option (\<lambda>c. (reading c, read_buffer c, msg_handler_set c, err_handler_set c)) (conns w i)"

lemma readers_upd_conn:
  assumes "\<And>c. (reading (f c), read_buffer (f c), msg_handler_set (f c), err_handler_set (f c)) =
    (reading c, read_buffer c, msg_handler_set c, err_handler_set c)"
  shows "readers (upd_conn i f w) = readers w"
  using assms by (cases "conns w i") (auto simp: readers_def upd_conn_def fun_eq_iff)

lemma receptive_readers:
  assumes "readers w' i = readers w i" "conns w i = Some c" "receptive hs c"
  obtains c' where "conns w' i = Some c'" "receptive hs c'"
  using assms by (auto simp: readers_def receptive_def)

definition kept_by :: "Agent \<Rightarrow> (u32 \<times> u32) \<times> nat option \<times> (nat \<Rightarrow> (read_op option \<times> bytes \<times> bool \<times> bool) option)" where
  "kept_by a = (steered a, agent_conn a, readers a)"

lemma kept_fields [simp]:
  "kept_by (a\<lparr>waiting := x1\<rparr>) = kept_by a" "kept_by (a\<lparr>expired := x2\<rparr>) = kept_by a" "kept_by (a\<lparr>agent_counters := x3\<rparr>) = kept_by a"
  "kept_by (a\<lparr>msg_hb := x4\<rparr>) = kept_by a" "kept_by (a\<lparr>msg_state := x5\<rparr>) = kept_by a" "kept_by (a\<lparr>agent_shutting_down := x6\<rparr>) = kept_by a"
  by (simp_all add: kept_by_def steered_def readers_def fun_eq_iff)

lemma kept_upd_conn:
  assumes "\<And>c. (reading (f c), read_buffer (f c), msg_handler_set (f c), err_handler_set (f c)) =
    (reading c, read_buffer c, msg_handler_set c, err_handler_set c)"
  shows "kept_by (upd_conn i f a) = kept_by a"
  using readers_upd_conn [of f i a] assms by (simp add: kept_by_def steered_def) (simp add: upd_conn_def)

lemma kept_tcp [simp]:
  "kept_by (upd_conn i (tcp_send P m) a) = kept_by a" "kept_by (upd_conn i flushAndDisconnect a) = kept_by a"
  "kept_by (upd_conn i (write_done_ok b) a) = kept_by a" "kept_by (upd_conn i (run_posted k) a) = kept_by a"
proof -
  have "(reading (run_task t c), read_buffer (run_task t c), msg_handler_set (run_task t c), err_handler_set (run_task t c)) =
      (reading c, read_buffer c, msg_handler_set c, err_handler_set c)" for t c
    by (cases t) (simp_all add: tcp_defs Let_def)
  then show "kept_by (upd_conn i (run_posted k) a) = kept_by a"
    by (intro kept_upd_conn) (simp add: run_posted_def)
qed (rule kept_upd_conn; simp add: tcp_defs Let_def)+

lemma own_keeps: "agent_own P a b \<Longrightarrow> kept_by b = kept_by a"
proof (induction rule: agent_own.induct)
  case (own_report a xs ys load t1 t2 b)
  have send: "kept_by c' = kept_by c" if "send_unchecked P m c = Inr c'" for m c c'
    using that by (auto simp: send_unchecked_def split: option.splits)
  have report: "kept_by (startReporting c) = kept_by c" for c
    by (simp add: startReporting_def set_timer_def)
  from own_report(2) show ?case
    by (auto simp: report_done_def getNextHeaderId_def Let_def err_simps report dest!: send)
qed (auto simp: write_done_def agent_signal_done_def shutdownAgent_def Let_def split: option.split list.split)

lemma own_grows: "agent_own P a b \<Longrightarrow> grown (wires a) b"
proof (induction rule: agent_own.induct)
  case (own_report a xs ys load t1 t2 b)
  have fields: "ends (a\<lparr>expired := x1\<rparr>) = ends a" "ends (a\<lparr>agent_counters := x2\<rparr>) = ends a" "ends (a\<lparr>msg_hb := x3\<rparr>) = ends a"
      "ends (a\<lparr>msg_state := x4\<rparr>) = ends a" "ends (a\<lparr>waiting := x5\<rparr>) = ends a" for a :: Agent and x1 x2 x3 x4 x5
    by (simp_all add: ends_def fun_eq_iff)
  have send: "ends c' = ends c" if "send_unchecked P m c = Inr c'" for m c c'
    using that by (auto simp: send_unchecked_def tcp_send_def ends_upd_conn split: option.splits)
  from own_report(2) show ?case
    by (intro grown_refl) (auto simp: report_done_def getNextHeaderId_def startReporting_def set_timer_def Let_def err_simps fields dest!: send)
next
  case (own_written a i)
  have "prefix (wire c) (wire (write_done_ok b c))" for b c
    by (simp add: write_done_ok_def writePump_def Let_def)
  then show ?case
    by (auto simp: write_done_def grown_refl intro!: grown_upd_conn split: option.split list.split)
next
  case (own_posted a i c k)
  have "wire (run_task t c) = wire c" for t c
    by (cases t) (simp_all add: tcp_defs)
  then show ?case
    by (intro grown_upd_conn grown_refl) (simp_all add: run_posted_def)
next
  case (own_signal a ec)
  have "ends (a\<lparr>agent_shutting_down := x1, waiting := x2\<rparr>) = ends a" for x1 x2
    by (simp add: ends_def fun_eq_iff)
  then show ?case
    by (intro grown_refl)
      (auto simp: agent_signal_done_def shutdownAgent_def flushAndDisconnect_def Let_def ends_upd_conn split: option.split)
qed (auto simp: grown_def wires_Some)

section \<open>The system\<close>

text \<open>
  Connection \<open>i\<close> of the controller and connection \<open>j\<close> of the agent are the two ends. The counters say how many of the frames one side
  has written the other side has been handed. A step of one side alone does not read from its end; the network hands over the
  next frame, and both reads for it complete.
\<close>

record Link =
  link_ctl :: Controller
  link_agent :: Agent
  to_agent :: nat
  to_ctl :: nat

inductive link_step :: "IMessageParser \<Rightarrow> 'j json_api \<Rightarrow> MessageType \<Rightarrow> Message set \<Rightarrow> nat \<Rightarrow> nat \<Rightarrow> Link \<Rightarrow> Link \<Rightarrow> bool"
  for P :: IMessageParser and J :: "'j json_api" and junk :: MessageType and B :: "Message set" and i j :: nat where
  link_ctl_own: "ctl_step P J junk B (link_ctl S) w \<Longrightarrow> readers w i = readers (link_ctl S) i \<Longrightarrow>
    link_step P J junk B i j S (S\<lparr>link_ctl := w\<rparr>)"
| link_agent_own: "agent_own P (link_agent S) a \<Longrightarrow> link_step P J junk B i j S (S\<lparr>link_agent := a\<rparr>)"
| link_down: "wires (link_ctl S) i = Some fs \<Longrightarrow> to_agent S < length fs \<Longrightarrow> open_end (link_agent S) j \<Longrightarrow>
    feed 2 P (agent_onMessage P t) agent_error_handler j (fs ! to_agent S) (link_agent S) = Inr ([], a) \<Longrightarrow>
    link_step P J junk B i j S (S\<lparr>link_agent := a, to_agent := Suc (to_agent S)\<rparr>)"
| link_up: "wires (link_agent S) j = Some fs \<Longrightarrow> to_ctl S < length fs \<Longrightarrow> open_end (link_ctl S) i \<Longrightarrow>
    feed 2 P (ctl_onMessage now ms) ctl_error_handler i (fs ! to_ctl S) (link_ctl S) = Inr ([], w) \<Longrightarrow>
    link_step P J junk B i j S (S\<lparr>link_ctl := w, to_ctl := Suc (to_ctl S)\<rparr>)"

text \<open>Both ends ready, nothing handed over yet.\<close>

definition link_ready :: "IMessageParser \<Rightarrow> 'j json_api \<Rightarrow> MessageType \<Rightarrow> Message set \<Rightarrow> nat \<Rightarrow> nat \<Rightarrow> Link \<Rightarrow> bool" where
  "link_ready P J junk B i j S \<longleftrightarrow>
     ctl_run P J junk B (link_ctl S) \<and> agent_run P (link_agent S) \<and> agent_conn (link_agent S) = Some j \<and>
     (\<exists>c d. conns (link_ctl S) i = Some c \<and> receptive (parser_header_size P) c \<and>
        conns (link_agent S) j = Some d \<and> receptive (parser_header_size P) d)"

definition link_opened :: "IMessageParser \<Rightarrow> 'j json_api \<Rightarrow> MessageType \<Rightarrow> Message set \<Rightarrow> nat \<Rightarrow> nat \<Rightarrow> Link \<Rightarrow> bool" where
  "link_opened P J junk B i j S \<longleftrightarrow> link_ready P J junk B i j S \<and> to_agent S = 0 \<and> to_ctl S = 0"

section \<open>One frame\<close>

interpretation ctl_wire_reads: read_steps P "\<lambda>(t, ms). ctl_onMessage t ms" ctl_error_handler i "\<lambda>w. ends w = x"
  for P i x
proof
  have mh: "ends w' = ends w" if "(case t of (t, ms) \<Rightarrow> ctl_onMessage t ms) i m w = (r, w')" for t :: "time_point \<times> u64" and m w r w'
    using that wire_obs.obs_message by (cases t) auto
  show "ends w' = x" if "ends w = x" "readBody_done P (case t of (t, ms) \<Rightarrow> ctl_onMessage t ms) ctl_error_handler i tot success data w = Inr w'"
    for w tot t data w'
    using that(1) body_keeps_ends [OF mh wire_obs.obs_error that(2)] by simp
qed simp

lemma agent_handlers_ends:
  "agent_onMessage P t i m a = (r, b) \<Longrightarrow> ends b = ends a" "ends (agent_error_handler i ec a) = ends a"
proof -
  have fields: "ends (a\<lparr>agent_counters := x1\<rparr>) = ends a" "ends (a\<lparr>msg_ack := x2\<rparr>) = ends a" "ends (a\<lparr>msg_nack := x3\<rparr>) = ends a"
      "ends (a\<lparr>cmd_set_mode_header_id := x4\<rparr>) = ends a" "ends (a\<lparr>current_mode := x5\<rparr>) = ends a" "ends (a\<lparr>last_cmd_rc := x6\<rparr>) = ends a"
      "ends (a\<lparr>agent_conn := x7\<rparr>) = ends a" "ends (a\<lparr>agent_retries := x8\<rparr>) = ends a" "ends (a\<lparr>waiting := x9\<rparr>) = ends a"
    for a :: Agent and x1 x2 x3 x4 x5 x6 x7 x8 x9
    by (simp_all add: ends_def fun_eq_iff)
  have send: "ends (send_if_connected P m a) = ends a" for m a
    by (simp add: send_if_connected_def tcp_send_def ends_upd_conn split: option.split)
  have "ends (sendAck P t c a) = ends a" "ends (sendNack P t c r a) = ends a" for t c r a
    by (simp_all add: sendAck_def sendNack_def getNextHeaderId_def Let_def send fields)
  then show "ends b = ends a" if "agent_onMessage P t i m a = (r, b)"
    using that by (auto simp: agent_onMessage_def Let_def fields split: if_splits sum.splits)
  show "ends (agent_error_handler i ec a) = ends a"
    by (simp add: agent_error_handler_def handleConnectionError_def set_timer_def tcp_disconnect_def Let_def fields ends_upd_conn split: option.split)
qed

interpretation agent_wire_reads: read_steps P "agent_onMessage P" agent_error_handler i "\<lambda>a. ends a = x"
  for P i x
proof
  show "ends b = x" if "ends a = x" "readBody_done P (agent_onMessage P t) agent_error_handler i tot success data a = Inr b" for a tot t data b
    using that(1) body_keeps_ends [OF agent_handlers_ends that(2)] by simp
qed simp

lemma command_delivered:
  assumes a: "agent_run P a" "agent_conn a = Some j" "conns a j = Some d" "receptive getHeaderSize d" and P: "P = BinaryMessageParser u"
    and m: "mode_command m"
  shows "\<exists>a' d'. feed 2 P (agent_onMessage P t) agent_error_handler j (serialize m) a = Inr ([], a') \<and> agent_run P a' \<and>
    agent_conn a' = Some j \<and> conns a' j = Some d' \<and> receptive getHeaderSize d' \<and> ends a' = ends a \<and>
    steered a' = follow (command_of m) (steered a)"
proof -
  let ?v = "strip_conn j a"
  obtain h md where c: "command_of m = (h, md)" by force
  have v: "agent_inv ?v" "agent_conn ?v = Some j" "conns ?v j = Some (strip_reader d)"
    using agent_run_inv [OF a(1)] a(2,3) by simp_all
  obtain b where b: "agent_onMessage P t j (sealed m) ?v = (None, b)" "agent_conn b = Some j"
      "(cmd_set_mode_header_id b, current_mode b) = follow (h, md) (cmd_set_mode_header_id ?v, current_mode ?v)"
    using command_step [OF v m c, of P t] by blast
  obtain a' d' where a': "feed 2 P (agent_onMessage P t) agent_error_handler j (serialize m) a = Inr ([], a')" "conns a' j = Some d'"
      "receptive getHeaderSize d'" "strip_conn j a' = b"
    using agent_reader.arrive_one [OF a(3,4) _ b(1), of u agent_error_handler] m unfolding P BinaryMessageParser_api mode_command_def by blast
  moreover have "agent_run P a'" "ends a' = ends a"
    using agent_reads.feed_kept [OF a(1) a'(1)] agent_wire_reads.feed_kept [OF refl a'(1)] by simp_all
  moreover have "agent_conn a' = Some j" "steered a' = follow (command_of m) (steered a)"
    using b(2,3) unfolding a'(4) [symmetric] by (simp_all add: steered_def c)
  ultimately show ?thesis by blast
qed

lemma report_delivered:
  assumes w: "ctl_run P J junk B w" "conns w i = Some c" "receptive getHeaderSize c" and P: "P = BinaryMessageParser u"
    and m: "agent_message aid m"
  shows "\<exists>w' c'. feed 2 P (ctl_onMessage now ms) ctl_error_handler i (serialize m) w = Inr ([], w') \<and> ctl_run P J junk B w' \<and>
    conns w' i = Some c' \<and> receptive getHeaderSize c' \<and> ends w' = ends w"
proof -
  obtain v where v: "(case (now, ms) of (t, ms) \<Rightarrow> ctl_onMessage t ms) i (sealed m) (strip_conn i w) = (None, v)"
    using agent_message_accepted [OF m, of now ms i "strip_conn i w"] by (cases "ctl_onMessage now ms i (sealed m) (strip_conn i w)") auto
  obtain w' c' where w': "feed 2 P (case (now, ms) of (t, ms) \<Rightarrow> ctl_onMessage t ms) ctl_error_handler i (serialize m) w = Inr ([], w')"
      "conns w' i = Some c'" "receptive getHeaderSize c'"
    using ctl_reader.arrive_one [OF w(2,3) _ v, of u ctl_error_handler] m unfolding P BinaryMessageParser_api agent_message_def by blast
  moreover have "ctl_run P J junk B w'" "ends w' = ends w"
    using ctl_reads.feed_kept [OF w(1) w'(1)] ctl_wire_reads.feed_kept [OF refl w'(1)] by simp_all
  ultimately show ?thesis by auto
qed

section \<open>The invariant\<close>

text \<open>The commands among the frames handed to the agent, in order.\<close>

definition handed :: "Link \<Rightarrow> nat \<Rightarrow> Message list \<Rightarrow> bool" where
  "handed S i ms \<longleftrightarrow>
     (\<exists>fs. wires (link_ctl S) i = Some fs \<and> to_agent S \<le> length fs \<and> take (to_agent S) fs = map serialize ms) \<and>
     set ms \<subseteq> Collect mode_command"

definition link_inv :: "IMessageParser \<Rightarrow> 'j json_api \<Rightarrow> MessageType \<Rightarrow> Message set \<Rightarrow> nat \<Rightarrow> nat \<Rightarrow> u32 \<times> u32 \<Rightarrow> Link \<Rightarrow> bool" where
  "link_inv P J junk B i j st S \<longleftrightarrow>
     link_ready P J junk B i j S \<and> (\<exists>ms. handed S i ms \<and> steered (link_agent S) = fold follow (map command_of ms) st) \<and>
     (\<exists>fs. wires (link_agent S) j = Some fs \<and> to_ctl S \<le> length fs)"

lemma opened_inv: "link_opened P J junk B i j S \<Longrightarrow> link_inv P J junk B i j (steered (link_agent S)) S"
  by (auto simp: link_opened_def link_ready_def link_inv_def handed_def wires_Some wires_def ends_def intro!: exI [of _ "[]"])

text \<open>Every frame of either side is a message of its kind.\<close>

lemma link_frames:
  assumes "link_ready P J junk B i j S" "P = BinaryMessageParser u" "B \<subseteq> Collect mode_command"
  shows "wires (link_ctl S) i = Some fs \<Longrightarrow> f \<in> set fs \<Longrightarrow> \<exists>m. f = serialize m \<and> mode_command m"
    "wires (link_agent S) j = Some fs \<Longrightarrow> f \<in> set fs \<Longrightarrow> \<exists>m. f = serialize m \<and> agent_message (self_id (link_agent S)) m"
proof -
  show "\<exists>m. f = serialize m \<and> mode_command m" if fs: "wires (link_ctl S) i = Some fs" "f \<in> set fs"
  proof -
    obtain c where c: "conns (link_ctl S) i = Some c" "wire c = fs"
      using fs(1) by (auto simp: wires_Some)
    with fs(2) have "f \<in> outgoing c" by (simp add: outgoing_def)
    moreover have "outgoing c \<subseteq> dispatched P B"
      using assms(1) c(1) ctl_run_typed by (force simp: link_ready_def ctl_typed_def)
    ultimately show ?thesis
      using assms(2,3) by (auto simp: dispatched_def)
  qed
  show "\<exists>m. f = serialize m \<and> agent_message (self_id (link_agent S)) m" if fs: "wires (link_agent S) j = Some fs" "f \<in> set fs"
  proof -
    obtain d where d: "conns (link_agent S) j = Some d" "wire d = fs"
      using fs(1) by (auto simp: wires_Some)
    with fs(2) have "f \<in> outgoing d" by (simp add: outgoing_def)
    moreover have "outgoing d \<subseteq> typed_frames P (self_id (link_agent S))"
      using assms(1) d(1) agent_run_typed by (force simp: link_ready_def agent_typed_def)
    ultimately show ?thesis
      using assms(2) by (auto simp: typed_frames_def)
  qed
qed

lemma handed_grown:
  assumes "handed S i ms" "grown (wires (link_ctl S)) w"
  shows "handed (S\<lparr>link_ctl := w\<rparr>) i ms"
proof -
  obtain fs where fs: "wires (link_ctl S) i = Some fs" "to_agent S \<le> length fs" "take (to_agent S) fs = map serialize ms"
      "set ms \<subseteq> Collect mode_command"
    using assms(1) by (auto simp: handed_def)
  moreover obtain gs where "wires w i = Some (fs @ gs)"
    using fs(1) assms(2) by (auto simp: grown_def prefix_def)
  ultimately show ?thesis
    by (auto simp: handed_def)
qed

text \<open>Handing over the next frame: always possible, and it keeps the invariant.\<close>

lemma down_step:
  assumes inv: "link_inv P J junk B i j st S" and P: "P = BinaryMessageParser u" and B: "B \<subseteq> Collect mode_command"
    and fs: "wires (link_ctl S) i = Some fs" "to_agent S < length fs"
  shows "\<exists>a. feed 2 P (agent_onMessage P t) agent_error_handler j (fs ! to_agent S) (link_agent S) = Inr ([], a) \<and>
    link_inv P J junk B i j st (S\<lparr>link_agent := a, to_agent := Suc (to_agent S)\<rparr>) \<and> ends a = ends (link_agent S)"
proof -
  have r: "link_ready P J junk B i j S"
    using inv by (simp add: link_inv_def)
  obtain m where m: "fs ! to_agent S = serialize m" "mode_command m"
    using link_frames(1) [OF r P B fs(1) nth_mem [OF fs(2)]] by auto
  obtain c d where cd: "conns (link_ctl S) i = Some c" "receptive (parser_header_size P) c" "conns (link_agent S) j = Some d" "receptive getHeaderSize d"
    using r P by (auto simp: link_ready_def)
  obtain a d' where a: "feed 2 P (agent_onMessage P t) agent_error_handler j (serialize m) (link_agent S) = Inr ([], a)" "agent_run P a"
      "agent_conn a = Some j" "conns a j = Some d'" "receptive getHeaderSize d'" "ends a = ends (link_agent S)"
      "steered a = follow (command_of m) (steered (link_agent S))"
    using command_delivered [OF _ _ cd(3,4) P m(2), of t] r by (auto simp: link_ready_def)
  obtain ms where ms: "take (to_agent S) fs = map serialize ms" "set ms \<subseteq> Collect mode_command"
      "steered (link_agent S) = fold follow (map command_of ms) st"
    using inv fs(1) by (auto simp: link_inv_def handed_def)
  let ?S = "S\<lparr>link_agent := a, to_agent := Suc (to_agent S)\<rparr>"
  have "handed ?S i (ms @ [m])"
    using fs ms(1,2) m by (simp add: handed_def take_Suc_conv_app_nth)
  moreover have "steered a = fold follow (map command_of (ms @ [m])) st"
    using a(7) ms(3) by simp
  moreover have "link_ready P J junk B i j ?S"
    using r a(2-5) cd(1,2) P by (simp add: link_ready_def)
  moreover have "\<exists>gs. wires (link_agent ?S) j = Some gs \<and> to_ctl ?S \<le> length gs"
    using inv ends_eq(1) [OF a(6)] by (simp add: link_inv_def)
  ultimately have "link_inv P J junk B i j st ?S"
    unfolding link_inv_def by auto
  with a(1,6) m(1) show ?thesis by auto
qed

lemma up_step:
  assumes inv: "link_inv P J junk B i j st S" and P: "P = BinaryMessageParser u" and B: "B \<subseteq> Collect mode_command"
    and fs: "wires (link_agent S) j = Some fs" "to_ctl S < length fs"
  shows "\<exists>w. feed 2 P (ctl_onMessage now ms) ctl_error_handler i (fs ! to_ctl S) (link_ctl S) = Inr ([], w) \<and>
    link_inv P J junk B i j st (S\<lparr>link_ctl := w, to_ctl := Suc (to_ctl S)\<rparr>) \<and> ends w = ends (link_ctl S)"
proof -
  have r: "link_ready P J junk B i j S"
    using inv by (simp add: link_inv_def)
  obtain m where m: "fs ! to_ctl S = serialize m" "agent_message (self_id (link_agent S)) m"
    using link_frames(2) [OF r P B fs(1) nth_mem [OF fs(2)]] by auto
  obtain c where c: "conns (link_ctl S) i = Some c" "receptive getHeaderSize c" "ctl_run P J junk B (link_ctl S)"
    using r P by (auto simp: link_ready_def)
  obtain w c' where w: "feed 2 P (ctl_onMessage now ms) ctl_error_handler i (serialize m) (link_ctl S) = Inr ([], w)" "ctl_run P J junk B w"
      "conns w i = Some c'" "receptive getHeaderSize c'" "ends w = ends (link_ctl S)"
    using report_delivered [OF c(3,1,2) P m(2), of now ms] by auto
  let ?S = "S\<lparr>link_ctl := w, to_ctl := Suc (to_ctl S)\<rparr>"
  have "link_ready P J junk B i j ?S"
    using r w(2-4) P by (auto simp: link_ready_def)
  then have "link_inv P J junk B i j st ?S"
    using inv ends_eq(1) [OF w(5)] fs by (auto simp: link_inv_def handed_def)
  with w(1,5) m(1) show ?thesis by auto
qed

lemma link_step_inv:
  assumes "link_step P J junk B i j S S'" "P = BinaryMessageParser u" "B \<subseteq> Collect mode_command" "link_inv P J junk B i j st S"
  shows "link_inv P J junk B i j st S'"
  using assms
proof (induction rule: link_step.induct)
  case (link_ctl_own S w)
  have r: "link_ready P J junk B i j S" and inv: "reg_inv (link_ctl S)"
    using link_ctl_own.prems(3) ctl_run_inv by (auto simp: link_inv_def link_ready_def)
  obtain c where c: "conns w i = Some c" "receptive (parser_header_size P) c"
    using r link_ctl_own.hyps(2) receptive_readers by (metis link_ready_def)
  with r have "link_ready P J junk B i j (S\<lparr>link_ctl := w\<rparr>)"
    using ctl_next [OF _ link_ctl_own.hyps(1)] by (auto simp: link_ready_def)
  then show ?case
    using link_ctl_own.prems(3) handed_grown [OF _ step_grows [OF link_ctl_own.hyps(1) inv]] by (auto simp: link_inv_def)
next
  case (link_agent_own S a)
  have r: "link_ready P J junk B i j S"
    using link_agent_own.prems(3) by (simp add: link_inv_def)
  have k: "steered a = steered (link_agent S)" "agent_conn a = agent_conn (link_agent S)" "readers a = readers (link_agent S)"
    using own_keeps [OF link_agent_own.hyps] by (simp_all add: kept_by_def)
  obtain d where d: "conns a j = Some d" "receptive (parser_header_size P) d"
    using r k(3) receptive_readers by (metis link_ready_def)
  with r k(2) have "link_ready P J junk B i j (S\<lparr>link_agent := a\<rparr>)"
    using own_run [OF link_agent_own.hyps] by (auto simp: link_ready_def)
  moreover have "\<exists>gs. wires a j = Some gs \<and> to_ctl S \<le> length gs"
    using link_agent_own.prems(3) own_grows [OF link_agent_own.hyps]
    by (fastforce simp: link_inv_def grown_def dest: prefix_length_le)
  ultimately show ?case
    using link_agent_own.prems(3) k(1) by (auto simp: link_inv_def handed_def)
next
  case (link_down S fs t a)
  then show ?case
    using down_step [OF link_down.prems(3,1,2) link_down.hyps(1,2), of t] by auto
next
  case (link_up S fs now ms w)
  then show ?case
    using up_step [OF link_up.prems(3,1,2) link_up.hyps(1,2), of now ms] by auto
qed

lemma link_reach_inv:
  assumes "(link_step P J junk B i j)\<^sup>*\<^sup>* S0 S" "link_opened P J junk B i j S0" "P = BinaryMessageParser u" "B \<subseteq> Collect mode_command"
  shows "link_inv P J junk B i j (steered (link_agent S0)) S"
  using assms(1)
proof (induction rule: rtranclp_induct)
  case base
  show ?case by (rule opened_inv [OF assms(2)])
next
  case (step S S')
  show ?case by (rule link_step_inv [OF step.hyps(2) assms(3,4) step.IH])
qed

section \<open>Draining\<close>

lemma drain_down:
  assumes "link_inv P J junk B i j st S" "P = BinaryMessageParser u" "B \<subseteq> Collect mode_command"
    "wires (link_ctl S) i = Some fs" "open_end (link_agent S) j"
  shows "\<exists>S'. (link_step P J junk B i j)\<^sup>*\<^sup>* S S' \<and> link_inv P J junk B i j st S' \<and> link_ctl S' = link_ctl S \<and> to_agent S' = length fs \<and>
    ends (link_agent S') = ends (link_agent S) \<and> to_ctl S' = to_ctl S"
  using assms(1,4,5)
proof (induction "length fs - to_agent S" arbitrary: S)
  case 0
  then have "to_agent S = length fs"
    by (auto simp: link_inv_def handed_def)
  with 0 show ?case by blast
next
  case (Suc n)
  then have k: "to_agent S < length fs" by linarith
  obtain a where a: "feed 2 P (agent_onMessage P 0) agent_error_handler j (fs ! to_agent S) (link_agent S) = Inr ([], a)"
      "link_inv P J junk B i j st (S\<lparr>link_agent := a, to_agent := Suc (to_agent S)\<rparr>)" "ends a = ends (link_agent S)"
    using down_step [OF Suc.prems(1) assms(2,3) Suc.prems(2) k, of 0] by blast
  let ?S = "S\<lparr>link_agent := a, to_agent := Suc (to_agent S)\<rparr>"
  have "link_step P J junk B i j S ?S"
    by (rule link_step.link_down [OF Suc.prems(2) k Suc.prems(3) a(1)])
  moreover have "n = length fs - to_agent ?S"
    using Suc.hyps(2) by simp
  moreover obtain S' where "(link_step P J junk B i j)\<^sup>*\<^sup>* ?S S' \<and> link_inv P J junk B i j st S' \<and> link_ctl S' = link_ctl ?S \<and>
      to_agent S' = length fs \<and> ends (link_agent S') = ends (link_agent ?S) \<and> to_ctl S' = to_ctl ?S"
    using Suc.hyps(1) [OF calculation(2) a(2)] Suc.prems(2,3) ends_eq(2) [OF a(3)] by auto
  ultimately show ?case
    using a(3) by (intro exI [of _ S']) (simp add: converse_rtranclp_into_rtranclp)
qed

lemma drain_up:
  assumes "link_inv P J junk B i j st S" "P = BinaryMessageParser u" "B \<subseteq> Collect mode_command"
    "wires (link_agent S) j = Some fs" "open_end (link_ctl S) i"
  shows "\<exists>S'. (link_step P J junk B i j)\<^sup>*\<^sup>* S S' \<and> link_inv P J junk B i j st S' \<and> link_agent S' = link_agent S \<and> to_ctl S' = length fs \<and>
    ends (link_ctl S') = ends (link_ctl S) \<and> to_agent S' = to_agent S"
  using assms(1,4,5)
proof (induction "length fs - to_ctl S" arbitrary: S)
  case 0
  then have "to_ctl S = length fs"
    by (auto simp: link_inv_def)
  with 0 show ?case by blast
next
  case (Suc n)
  then have k: "to_ctl S < length fs" by linarith
  obtain w where w: "feed 2 P (ctl_onMessage 0 0) ctl_error_handler i (fs ! to_ctl S) (link_ctl S) = Inr ([], w)"
      "link_inv P J junk B i j st (S\<lparr>link_ctl := w, to_ctl := Suc (to_ctl S)\<rparr>)" "ends w = ends (link_ctl S)"
    using up_step [OF Suc.prems(1) assms(2,3) Suc.prems(2) k, of 0 0] by blast
  let ?S = "S\<lparr>link_ctl := w, to_ctl := Suc (to_ctl S)\<rparr>"
  have "link_step P J junk B i j S ?S"
    by (rule link_step.link_up [OF Suc.prems(2) k Suc.prems(3) w(1)])
  moreover have "n = length fs - to_ctl ?S"
    using Suc.hyps(2) by simp
  moreover obtain S' where "(link_step P J junk B i j)\<^sup>*\<^sup>* ?S S' \<and> link_inv P J junk B i j st S' \<and> link_agent S' = link_agent ?S \<and>
      to_ctl S' = length fs \<and> ends (link_ctl S') = ends (link_ctl ?S) \<and> to_agent S' = to_agent ?S"
    using Suc.hyps(1) [OF calculation(2) w(2)] Suc.prems(2,3) ends_eq(2) [OF w(3)] by auto
  ultimately show ?case
    using w(3) by (intro exI [of _ S']) (simp add: converse_rtranclp_into_rtranclp)
qed

text \<open>A link over which a command and a greeting are on their way.\<close>

definition sample_link :: Link where
  "sample_link = \<lparr>link_ctl = dispatched_ctl, link_agent = greeting_agent, to_agent = 0, to_ctl = 0\<rparr>"

abbreviation sample_step :: "Link \<Rightarrow> Link \<Rightarrow> bool" where
  "sample_step \<equiv> link_step (BinaryMessageParser 0) no_json HELLO {sample_command} 0 0"

lemma sample_link_opened:
  "link_opened (BinaryMessageParser 0) no_json HELLO {sample_command} 0 0 sample_link" "{sample_command} \<subseteq> Collect mode_command"
  "wires (link_ctl sample_link) 0 = Some [serialize sample_command]" "open_end (link_agent sample_link) 0" "open_end (link_ctl sample_link) 0"
proof -
  obtain c where c: "conns dispatched_ctl 0 = Some c" "wire c = [serialize sample_command]" "receptive getHeaderSize c" "is_open c"
    using dispatched_ctl_run(2) by auto
  obtain d where d: "conns greeting_agent 0 = Some d" "receptive getHeaderSize d" "is_open d"
    using greeting_agent_run(2) by auto
  have "agent_conn greeting_agent = Some 0"
    by (simp add: greeting_agent_def write_done_def upd_conn_def sample_agent_simps(1) split: option.split list.split)
  then show "link_opened (BinaryMessageParser 0) no_json HELLO {sample_command} 0 0 sample_link"
    using c d dispatched_ctl_run(1) greeting_agent_run(1) by (simp add: link_opened_def link_ready_def sample_link_def)
  show "wires (link_ctl sample_link) 0 = Some [serialize sample_command]"
    "open_end (link_agent sample_link) 0" "open_end (link_ctl sample_link) 0"
    using c d by (simp_all add: sample_link_def wires_Some open_end_def ends_def)
qed (simp add: sample_mode_command(1))

text \<open>A frame has one reading.\<close>

lemma same_command:
  assumes "serialize m = serialize m'" "mode_command m" "mode_command m'"
  shows "command_of m = command_of m'"
proof -
  have "sealed m = sealed m'"
    using deserialize_serialize [of m 0 "[]"] deserialize_serialize [of m' 0 "[]"] assms by (simp add: mode_command_def)
  then have "header m = header m'" "payload m = payload m'"
    using sealed_simps by metis+
  then show ?thesis by (simp add: command_of_def)
qed

section \<open>Properties\<close>

text \<open>C2: an agent is never in a mode its controller did not ask for. Let a controller and an agent be joined by a connection and both go on
  in any order - the controller with other agents, its health checks and policies, the agent with its timers and
  reports, frames of either side arriving late - while the owner of the command bus sends mode commands only. At every point the frames handed
  to the agent are the encodings of a sequence of mode commands, the first ones the controller has written to this connection, and
  the agent's mode and command id are exactly what the specification gives for that sequence.\<close>

theorem link_agent_in_step:
  assumes "(link_step P J junk B i j)\<^sup>*\<^sup>* S0 S" "link_opened P J junk B i j S0" "P = BinaryMessageParser u" "B \<subseteq> Collect mode_command"
  shows "\<exists>ms fs. wires (link_ctl S) i = Some fs \<and> to_agent S \<le> length fs \<and> take (to_agent S) fs = map serialize ms \<and>
    set ms \<subseteq> Collect mode_command \<and> steered (link_agent S) = fold follow (map command_of ms) (steered (link_agent S0))"
  using link_reach_inv [OF assms] by (auto simp: link_inv_def handed_def)

theorem link_agent_in_step_witness:
  "\<exists>S. sample_step\<^sup>*\<^sup>* sample_link S \<and> to_agent S = 1 \<and> steered (link_agent S) = (9, 1)"
proof -
  obtain S where S: "sample_step\<^sup>*\<^sup>* sample_link S" "link_ctl S = link_ctl sample_link" "to_agent S = 1"
    using drain_down [OF opened_inv [OF sample_link_opened(1)] refl sample_link_opened(2-4)] by auto
  obtain m where m: "serialize m = serialize sample_command" "mode_command m"
      "steered (link_agent S) = follow (command_of m) (steered greeting_agent)"
    using link_agent_in_step [OF S(1) sample_link_opened(1) refl sample_link_opened(2)] S(2,3) sample_link_opened(3)
    by (force simp: sample_link_def)
  then have "command_of m = (9, 1)"
    using same_command [OF m(1,2)] sample_mode_command by simp
  moreover have "kept_by greeting_agent = kept_by sample_agent"
    using own_keeps [OF own_written] by (simp add: greeting_agent_def)
  then have "steered greeting_agent = (0xFFFFFFFF, 0)"
    by (simp add: kept_by_def steered_def sample_agent_def connect_done_def sendHello_def send_unchecked_def getNextHeaderId_def
        new_Agent_def startReporting_def set_timer_def upd_conn_def Let_def)
  ultimately show ?thesis
    using S m(3) by (auto simp: follow_def)
qed

text \<open>C5: nothing on its way between the two is ever stuck. Whatever the two sides have done, as long as the sockets of both ends are open the
  network can hand over every frame either side has written, without an exception on any side and without writing more; the
  agent is then in the mode the specification gives for all the commands the controller has written to the connection.\<close>

theorem link_catches_up:
  assumes "(link_step P J junk B i j)\<^sup>*\<^sup>* S0 S" "link_opened P J junk B i j S0" "P = BinaryMessageParser u" "B \<subseteq> Collect mode_command"
    and "open_end (link_ctl S) i" "open_end (link_agent S) j"
  shows "\<exists>S' ms gs. (link_step P J junk B i j)\<^sup>*\<^sup>* S S' \<and>
    wires (link_ctl S) i = Some (map serialize ms) \<and> wires (link_ctl S') i = Some (map serialize ms) \<and> to_agent S' = length ms \<and>
    wires (link_agent S) j = Some gs \<and> wires (link_agent S') j = Some gs \<and> to_ctl S' = length gs \<and>
    steered (link_agent S') = fold follow (map command_of ms) (steered (link_agent S0))"
proof -
  note inv = link_reach_inv [OF assms(1-4)]
  obtain fs gs where w: "wires (link_ctl S) i = Some fs" "wires (link_agent S) j = Some gs"
    using inv by (auto simp: link_inv_def handed_def)
  obtain S1 where S1: "(link_step P J junk B i j)\<^sup>*\<^sup>* S S1" "link_inv P J junk B i j (steered (link_agent S0)) S1" "link_ctl S1 = link_ctl S"
      "to_agent S1 = length fs" "ends (link_agent S1) = ends (link_agent S)"
    using drain_down [OF inv assms(3,4) w(1) assms(6)] by blast
  obtain S2 where S2: "(link_step P J junk B i j)\<^sup>*\<^sup>* S1 S2" "link_inv P J junk B i j (steered (link_agent S0)) S2" "link_agent S2 = link_agent S1"
      "to_ctl S2 = length gs" "ends (link_ctl S2) = ends (link_ctl S1)" "to_agent S2 = to_agent S1"
    using drain_up [OF S1(2) assms(3,4), of gs] w(2) assms(5) S1(3) ends_eq(1) [OF S1(5)] by auto
  have f: "wires (link_ctl S2) i = Some fs" "wires (link_agent S2) j = Some gs"
    using w S1(3) S2(3) ends_eq(1) [OF S1(5)] ends_eq(1) [OF S2(5)] by simp_all
  obtain ms where "fs = map serialize ms" "steered (link_agent S2) = fold follow (map command_of ms) (steered (link_agent S0))"
    using S2(2,6) S1(4) f(1) by (auto simp: link_inv_def handed_def)
  moreover have "(link_step P J junk B i j)\<^sup>*\<^sup>* S S2"
    using S1(1) S2(1) by (rule rtranclp_trans)
  ultimately show ?thesis
    using w f S2(4,6) S1(4) by (intro exI [of _ S2] exI [of _ ms] exI [of _ gs]) simp
qed

theorem link_catches_up_witness:
  "\<exists>S. sample_step\<^sup>*\<^sup>* sample_link S \<and> to_agent S = 1 \<and> to_ctl S = 1"
proof -
  have "\<exists>gs. wires (link_agent sample_link) 0 = Some gs \<and> length gs = 1"
    using greeting_agent_run(2) by (auto simp: sample_link_def wires_Some)
  then obtain gs where gs: "wires (link_agent sample_link) 0 = Some gs" "length gs = 1"
    by blast
  from link_catches_up [OF rtranclp.rtrancl_refl sample_link_opened(1) refl sample_link_opened(2,5,4)] obtain S ms gs'
    where S: "sample_step\<^sup>*\<^sup>* sample_link S" "wires (link_ctl sample_link) 0 = Some (map serialize ms)" "to_agent S = length ms"
      "wires (link_agent sample_link) 0 = Some gs'" "to_ctl S = length gs'"
    by blast
  have "length ms = 1" "length gs' = 1"
    using S(2,4) gs sample_link_opened(3) by auto
  with S show ?thesis by auto
qed

end
