(* ===== verification/Fleet_Vitals.thy ===== *)
theory Fleet_Vitals
  imports Fleet_Roster Fleet_Link
begin

text \<open>
  The supervision of the agents by their heartbeats, as an abstract specification: per agent its connection and the time it was
  last heard. Messages, failed connections and health checks refine it; over any history of these, an agent
  is kept exactly as long as it is heard in time.
\<close>

section \<open>The specification\<close>

type_synonym census = "u32 \<rightharpoonup> nat \<times> time_point"

text \<open>
  On a connection no agent uses, a \<^verbatim>\<open>HELLO\<close> enters its agent, heard now; on a connection of an agent, a \<^verbatim>\<open>HEARTBEAT\<close> renews the time.
\<close>

definition census_message :: "time_point \<Rightarrow> nat \<Rightarrow> Message \<Rightarrow> census \<Rightarrow> census" where
  "census_message now i m C =
     (if \<forall>aid t. C aid \<noteq> Some (i, t) then
        (if msg_type (header m) = HELLO then
           (case Hello_deserialize (payload m) Hello_fresh of Inl e \<Rightarrow> C | Inr pl \<Rightarrow> C(hello_agent_id pl \<mapsto> (i, now)))
         else C)
      else if msg_type (header m) = HEARTBEAT then
        (\<lambda>aid. map_option (\<lambda>(j, t). (j, if j = i then now else t)) (C aid))
      else C)"

text \<open>A failed connection removes its agent, unless that is agent 0.\<close>

definition census_error :: "nat \<Rightarrow> census \<Rightarrow> census" where
  "census_error i C = (\<lambda>aid. if aid \<noteq> 0 \<and> map_option fst (C aid) = Some i then None else C aid)"

section \<open>Refinement\<close>

lemma pulse_Some_iff:
  "pulse w aid = Some (i, t) \<longleftrightarrow>
     (\<exists>n s. map_of (sessions w) aid = Some n \<and> sess w n = Some s \<and> session_conn s = Some i \<and> last_heartbeat s = t)"
  by (auto simp: pulse_def vitals_def bind_eq_Some_conv)

lemma unheard_iff:
  assumes inv: "reg_inv w"
  shows "(\<forall>aid t. pulse w aid \<noteq> Some (i, t)) \<longleftrightarrow> lock_context i w = None"
  unfolding unlocked_iff [OF inv] by (auto simp: ran_def roster_eq)

lemma pulse_heartbeat:
  assumes inv: "reg_inv w" and l: "lock_context i w = Some (n, s)"
  shows "pulse (put_session n (updateHeartbeat now s) w) = (\<lambda>aid. map_option (\<lambda>(j, t). (j, if j = i then now else t)) (pulse w aid))"
proof
  fix aid
  note s = l [unfolded locked_iff [OF inv]]
  show "pulse (put_session n (updateHeartbeat now s) w) aid = map_option (\<lambda>(j, t). (j, if j = i then now else t)) (pulse w aid)"
  proof (cases "map_of (sessions w) aid")
    case (Some k)
    then obtain u where u: "sess w k = Some u"
      using registered_iff [OF reg_inv_parts(1) [OF inv], of aid k] by auto
    have "k = n" if "session_conn u = Some i"
      using l u that locked_iff [OF inv, of i k u] by simp
    then show ?thesis
      using Some u s by (cases "k = n"; cases "session_conn u") (auto simp: pulse_def vitals_def updateHeartbeat_def)
  qed (simp add: pulse_def)
qed

lemma pulse_onMessage:
  assumes inv: "reg_inv w"
  shows "pulse (snd (ctl_onMessage now ms i m w)) = census_message now i m (pulse w)"
proof (cases "lock_context i w")
  case None
  then show ?thesis
    using unheard_iff [OF inv, of i] pulse_register [OF inv]
    by (auto simp: ctl_onMessage_def census_message_def split: sum.split)
next
  case (Some x)
  then obtain n s where l: "lock_context i w = Some (n, s)" by (cases x) auto
  then have s: "sess w n = Some s"
    using locked_iff [OF inv] by blast
  have ack: "pulse (put_session n s' w') = pulse w" if h: "handleAck now c s w = (s', w')" for c s' w'
  proof -
    obtain f where f: "w' = upd_tracker f w"
      using snd_handleAck [of now c s w] h by auto
    moreover have "session_conn s' = session_conn s" "last_heartbeat s' = last_heartbeat s"
      using h by (auto simp: handleAck_def Let_def split: option.splits)
    ultimately show ?thesis
      using pulse_put [of w' n s s'] s by simp
  qed
  have "\<not> (\<forall>aid t. pulse w aid \<noteq> Some (i, t))"
    using l unheard_iff [OF inv, of i] by simp
  then show ?thesis
    using l pulse_heartbeat [OF inv l]
    by (auto simp: census_message_def ctl_onMessage_def message_type_defs ack split: sum.split prod.split)
qed

lemma pulse_on_error:
  assumes inv: "reg_inv w"
  shows "pulse (ctl_error_handler i ec w) = census_error i (pulse w)"
proof (cases "lock_context i w")
  case None
  then have "census_error i (pulse w) = pulse w"
    using unheard_iff [OF inv, of i] by (fastforce simp: census_error_def fun_eq_iff)
  with None show ?thesis
    by (simp add: ctl_error_handler_def)
next
  case (Some x)
  then obtain n s where l: "lock_context i w = Some (n, s)" by (cases x) auto
  have "map_option fst (pulse w aid) = Some i \<longleftrightarrow> aid = session_id s" for aid
    using roster_locked [OF inv l, of aid] by (simp add: roster_eq)
  then have "census_error i (pulse w) = (if session_id s = 0 then pulse w else (pulse w)(session_id s := None))"
    by (auto simp: census_error_def fun_eq_iff)
  with l show ?thesis
    by (simp add: ctl_error_handler_def Let_def getAgentId_def pulse_erase [OF inv])
qed

text \<open>A health check keeps exactly the agents whose socket is open and who were heard less than three seconds before.\<close>

lemma pulse_check:
  assumes inv: "reg_inv w" and p: "pulse w aid = Some (i, t)"
  shows "\<exists>k. pulse (check_sessions P clk clk' w) aid = (if open_end w i \<and> clk k - t < 3 * 1000000000 then Some (i, t) else None)"
proof -
  obtain n s where s: "map_of (sessions w) aid = Some n" "sess w n = Some s" "session_conn s = Some i" "last_heartbeat s = t"
    using p by (auto simp: pulse_Some_iff)
  obtain m c where c: "conns w i = Some c" "ctx w i = Some (Some n)"
    using session_facts [OF inv s(2)] s(3) by (metis option.inject)
  obtain k where k: "k < length (sessions w)" "sessions w ! k = (aid, n)"
    using map_of_SomeD [OF s(1)] by (auto simp: in_set_conv_nth)
  let ?v = "health_loop P clk (sessions w) w"
  have "isHealthy (clk (2 * k)) s w \<longleftrightarrow> open_end w i \<and> clk (2 * k) - t < 3 * 1000000000"
    using s c by (auto simp: healthy_exactly open_end_def ends_def)
  with health_loop_at [OF inv k s(2,3) c refl, where P = P and clk = clk] s
  have "pulse ?v aid = (if open_end w i \<and> clk (2 * k) - t < 3 * 1000000000 then Some (i, t) else None)"
    by (auto simp: pulse_def vitals_def split: if_splits)
  then show ?thesis
    by (auto simp: check_sessions_def Let_def)
qed

lemma pulse_check_None:
  assumes inv: "reg_inv w" and p: "pulse w aid = None"
  shows "pulse (check_sessions P clk clk' w) aid = None"
proof -
  have "roster w aid = None"
    using p by (simp add: roster_eq)
  then have "roster (check_sessions P clk clk' w) aid = None"
    using roster_check [OF inv, of P clk clk'] by (metis domIff map_le_def)
  then show ?thesis by (simp add: roster_eq)
qed

section \<open>Histories\<close>












section \<open>Properties\<close>

text \<open>C4: the controller's registration refines a census of agents: per agent the connection it uses, no two the same, and the time it was
  last heard. In every reachable state a message and a failed connection change the census exactly as its specification says, which looks at
  nothing but the census and the message; a health check keeps exactly the agents with an open socket who
  were heard less than three seconds before their reading of the clock; a broadcast and a shutdown leave the census as it is.\<close>

theorem registry_refines_census:
  assumes "ctl_run P J junk B w"
  shows "inj_on (\<lambda>aid. map_option fst (pulse w aid)) (dom (pulse w)) \<and>
    pulse (snd (ctl_onMessage now ms i m w)) = census_message now i m (pulse w) \<and>
    pulse (ctl_error_handler i ec w) = census_error i (pulse w) \<and>
    (\<exists>rd. pulse (check_sessions P clk clk' w) =
      (\<lambda>aid. case pulse w aid of None \<Rightarrow> None
        | Some (j, t) \<Rightarrow> if open_end w j \<and> clk (rd aid) - t < 3 * 1000000000 then Some (j, t) else None)) \<and>
    pulse (broadcastCommand P bclk p w) = pulse w \<and> pulse (shutdownController P w) = pulse w"
proof -
  note inv = ctl_run_inv [OF assms]
  have "\<exists>k. pulse (check_sessions P clk clk' w) aid = (case pulse w aid of None \<Rightarrow> None
      | Some (j, t) \<Rightarrow> if open_end w j \<and> clk k - t < 3 * 1000000000 then Some (j, t) else None)" for aid
    using pulse_check [OF inv, of aid _ _ P clk clk'] pulse_check_None [OF inv, of aid P clk clk'] by (cases "pulse w aid") auto
  then obtain rd where "pulse (check_sessions P clk clk' w) aid = (case pulse w aid of None \<Rightarrow> None
      | Some (j, t) \<Rightarrow> if open_end w j \<and> clk (rd aid) - t < 3 * 1000000000 then Some (j, t) else None)" for aid
    using choice [of "\<lambda>aid k. pulse (check_sessions P clk clk' w) aid = (case pulse w aid of None \<Rightarrow> None
      | Some (j, t) \<Rightarrow> if open_end w j \<and> clk k - t < 3 * 1000000000 then Some (j, t) else None)"] by blast
  moreover have "dom (roster w) = dom (pulse w)"
    by (auto simp: roster_eq)
  then have "inj_on (\<lambda>aid. map_option fst (pulse w aid)) (dom (pulse w))"
    using roster_inj [OF inv] by (simp add: roster_eq)
  ultimately show ?thesis
    by (auto simp: pulse_onMessage [OF inv] pulse_on_error [OF inv] broadcastCommand_def shutdownController_def)
qed

lemma sample_pulse: "pulse sample_ctl 100 = Some (0, 0)" "open_end sample_ctl 0"
  by (simp_all add: pulse_def vitals_def open_end_def ends_def sample_ctl_simps sample_session_def setContext_def ready_conn_def
      tcp_defs new_TcpComm_def)

theorem registry_refines_census_witness:
  "pulse (ctl_error_handler 0 eof sample_ctl) = census_error 0 (pulse sample_ctl) \<and> pulse sample_ctl 100 = Some (0, 0)"
  using registry_refines_census [OF sample_ctl_run [of "BinaryMessageParser 0" HELLO]] sample_pulse(1) by blast



end
