(* ===== verification/Fleet_Service.thy ===== *)
theory Fleet_Service
  imports Fleet_Properties Fleet_Observe
begin

text \<open>
  What keeps the controller in service: until it is shut down an accept for agents, the health timer and an accept of
  the metrics server are always outstanding. Every other handler leaves these four fields alone.
\<close>

definition services :: "Controller \<Rightarrow> bool \<times> bool \<times> bool \<times> MetricsServer" where
  "services w = (ctl_shutting_down w, accept_pending w, timer_pending w, metrics w)"

lemma services_upd [simp]:
  "services (upd_conn i f w) = services w" "services (w\<lparr>policies := x7\<rparr>) = services w"
  "services (w\<lparr>last_policy_file_time := x8\<rparr>) = services w" "services (w\<lparr>conns := x9, next_conn := x10\<rparr>) = services w"
  by (simp_all add: services_def upd_conn_def)

interpretation service_obs: policy_observation services
  by unfold_locales (simp_all add: services_def post_on_def upd_conn_def upd_tracker_def split: option.split)

text \<open>Whatever a connection does leaves them alone.\<close>

interpretation service_client: tcp_client "ctl_onMessage now ms" ctl_error_handler "\<lambda>w. services w = x"
  for now ms x
  by unfold_locales (auto dest: service_obs.obs_message)

lemma services_new_session: "new_AgentTcpSession now ms i w = (s, w') \<Longrightarrow> services w' = services w"
  by (auto simp: new_AgentTcpSession_def split: prod.splits)

lemma services_load: "loadPolicies J junk f w = Inr w' \<Longrightarrow> services w' = services w"
  by (auto simp: loadPolicies_def Let_def split: sum.splits bool.splits if_splits)

lemma services_check_update: "checkPolicyUpdate J junk f g w = Inr w' \<Longrightarrow> services w' = services w"
  by (auto simp: checkPolicyUpdate_def dest: services_load split: sum.splits bool.splits if_splits)

section \<open>Runs\<close>

definition in_service :: "Controller \<Rightarrow> bool" where
  "in_service w \<longleftrightarrow>
     ctl_shutting_down w \<or>
     accept_pending w \<and> timer_pending w \<and>
     server_alive (metrics w) \<and> acceptor_open (metrics w) \<and> server_accepting (metrics w)"

lemma in_service_cong: "services w = services w' \<Longrightarrow> in_service w = in_service w'"
  by (simp add: in_service_def services_def)

lemma in_service_accept: "in_service w \<Longrightarrow> in_service (accept_done now ms ec w)"
proof -
  assume w: "in_service w"
  have "services (let i = next_conn w;
                     w = (w\<lparr>accept_pending := False\<rparr>)\<lparr>conns := (conns w)(i \<mapsto> new_TcpComm True), next_conn := Suc i\<rparr>;
                     (session, w) = new_AgentTcpSession now ms i w;
                     w = add_active 1 w;
                     w = upd_conn i setMessageHandler w;
                     w = upd_conn i setErrorHandler w;
                     w = upd_conn i tcp_start w
                 in destroy_session session w) = services (w\<lparr>accept_pending := False\<rparr>)"
    by (auto simp: Let_def dest: services_new_session split: prod.split)
  moreover have "in_service (doAccept v)" if "services v = services (w\<lparr>accept_pending := False\<rparr>)" for v
    using w that by (auto simp: in_service_def doAccept_def services_def)
  ultimately show ?thesis
    by (simp add: accept_done_def Let_def)
qed

lemma in_service_tick:
  assumes "in_service w" "ec = success \<or> ctl_shutting_down w" "health_check_done P J junk f g clk clk' ec w = Inr w'"
  shows "in_service w'"
proof (cases "ec = success")
  case True
  then obtain v where v: "checkPolicyUpdate J junk f g (w\<lparr>timer_pending := False\<rparr>) = Inr v"
      "w' = startHealthCheck (check_sessions P clk clk' v)"
    using assms(3) by (auto simp: health_check_done_def Let_def err_simps)
  have "services (check_sessions P clk clk' v) = services (w\<lparr>timer_pending := False\<rparr>)"
    using services_check_update [OF v(1)] by simp
  then show ?thesis
    using assms(1) v(2) by (auto simp: in_service_def startHealthCheck_def services_def)
next
  case False
  then show ?thesis
    using assms by (auto simp: health_check_done_def in_service_def)
qed

lemma in_service_start: "new_Controller J junk f ms = Inr w \<Longrightarrow> in_service w"
  by (auto simp: new_Controller_def err_simps in_service_def services_def startHealthCheck_def doAccept_def new_MetricsServer_def
      metrics_doAccept_def dest!: services_load)

lemma in_service_shutdown: "in_service w \<Longrightarrow> in_service (shutdownController P w)"
  using service_obs.obs_loops(4) [of P "sessions w" "w\<lparr>ctl_shutting_down := True, metrics := destroy_MetricsServer (metrics w)\<rparr>"]
  by (auto simp: shutdownController_def in_service_def services_def)

lemma in_service_step: "ctl_step P J junk B w w' \<Longrightarrow> in_service w \<Longrightarrow> in_service w'"
proof (induction rule: ctl_step.induct)
  case (step_scrape w ec v)
  then show ?case
    by (auto simp: in_service_def metrics_accept_done_def metrics_doAccept_def Let_def split: if_splits)
next
  case (step_scraped w k ec)
  then show ?case by (simp add: in_service_def)
next
  case (step_header w i c ec data)
  then show ?case
    using service_client.readHeader_done_inv [OF refl] in_service_cong by blast
next
  case (step_body w i c tot now ms ec data w')
  then show ?case
    using service_client.readBody_done_inv [OF refl] in_service_cong by blast
next
  case (step_written w i c b rest ec)
  then show ?case
    using service_client.write_completion_inv [OF refl] in_service_cong by blast
next
  case (step_message w i c now ms m r w')
  then show ?case
    using service_obs.obs_message in_service_cong by blast
next
  case (step_tick w ec f g clk clk' w')
  then show ?case using in_service_tick by blast
next
  case (step_accept w now ms ec)
  then show ?case by (simp add: in_service_accept)
next
  case (step_signal w ec)
  then show ?case by (simp add: ctl_signal_done_def in_service_shutdown)
qed (erule in_service_cong [THEN iffD1, rotated], simp add: broadcastCommand_def clearPolicies_def addPolicy_def)+

lemma ctl_run_in_service: "ctl_run P J junk B w \<Longrightarrow> in_service w"
  by (induction rule: ctl_run.induct) (auto simp: in_service_start intro: in_service_step)

section \<open>Properties\<close>

text \<open>C23: the controller never goes deaf: in every state a run reaches before shutdown, an accept for agents, the wait of the health timer
  and an accept of the metrics server are outstanding, whatever errors occurred before.\<close>

theorem controller_stays_in_service:
  assumes "ctl_run P J junk B w" "\<not> ctl_shutting_down w"
  shows "accept_pending w \<and> timer_pending w \<and> server_alive (metrics w) \<and> server_accepting (metrics w)"
  using ctl_run_in_service [OF assms(1)] assms(2) by (simp add: in_service_def)

theorem controller_stays_in_service_witness: "accept_pending sample_ctl \<and> timer_pending sample_ctl"
  using controller_stays_in_service [OF sample_ctl_run [of "BinaryMessageParser 0" HELLO]] sample_ctl_simps(6) by simp

text \<open>C36: shutting down uses a destroyed object: the shutdown destroys the metrics server while its accept is outstanding, and the
  completion of that accept, which the destructor's own close of the acceptor brings about, then works on the destroyed server.\<close>

theorem shutdown_uses_destroyed_server:
  assumes "ctl_run P J junk B w" "\<not> ctl_shutting_down w" "w' = shutdownController P w"
  shows "server_accepting (metrics w') \<and> metrics_accept_done (tracker w') operation_aborted (metrics w') = Inl use_after_free"
proof -
  have "metrics w' = destroy_MetricsServer (metrics w)"
    using assms(2,3) service_obs.obs_loops(4) [of P "sessions w" "w\<lparr>ctl_shutting_down := True, metrics := destroy_MetricsServer (metrics w)\<rparr>"]
    by (simp add: shutdownController_def services_def)
  then show ?thesis
    using ctl_run_in_service [OF assms(1)] assms(2) by (simp add: in_service_def destroy_MetricsServer_def metrics_accept_done_def)
qed

theorem shutdown_uses_destroyed_server_witness:
  "server_accepting (metrics (shutdownController (BinaryMessageParser 0) sample_ctl))"
  using shutdown_uses_destroyed_server [OF sample_ctl_run [of "BinaryMessageParser 0" HELLO] _ refl] sample_ctl_simps(6) by simp

end
