(* ===== verification/Fleet_Policy.thy ===== *)
theory Fleet_Policy
  imports Fleet_Service
begin

text \<open>
  The policies of the controller as an automaton. The switch \<^verbatim>\<open>overload_mode_\<close> and the next command id follow a specification that
  only knows the observed loads; with the two policies of the shipped configuration it is a switch with hysteresis.
\<close>

section \<open>What policies work on\<close>

definition control :: "Controller \<Rightarrow> bool \<times> (MessageType \<times> u32) list \<times> Policy list" where
  "control w = (overload_mode w, ctl_counters w, policies w)"

definition next_command_id :: "Controller \<Rightarrow> u32" where
  "next_command_id w = (case map_of (ctl_counters w) CMD_SET_MODE of None \<Rightarrow> 0 | Some v \<Rightarrow> v)"

text \<open>Serving the connections and the loops over the sessions leave it alone.\<close>

lemma control_upd [simp]:
  "control (upd_conn i f w) = control w" "control (w\<lparr>accept_pending := x5\<rparr>) = control w"
  "control (w\<lparr>conns := x9, next_conn := x10\<rparr>) = control w" "control (doAccept w) = control w"
  by (simp_all add: control_def upd_conn_def doAccept_def)

interpretation control_obs: observation control
  by unfold_locales (simp_all add: control_def post_on_def upd_conn_def upd_tracker_def split: option.split)

lemma control_accept [simp]: "control (accept_done now ms ec w) = control w"
  by (simp add: accept_done_def new_AgentTcpSession_def Let_def case_prod_beta)

interpretation control_client: tcp_client "ctl_onMessage now ms" ctl_error_handler "\<lambda>w. control w = x"
  for now ms x
  by unfold_locales (auto dest: control_obs.obs_message)

section \<open>The specification\<close>

text \<open>One policy on the switch and the next command id.\<close>

definition policy_step :: "f32 \<Rightarrow> Policy \<Rightarrow> bool \<times> u32 \<Rightarrow> bool \<times> u32" where
  "policy_step avg pol st =
     (let on = (act_mode (policy_action pol) = 1)
      in if condition_met avg pol \<and> act_command (policy_action pol) = CMD_SET_MODE \<and> fst st \<noteq> on then (on, snd st + 1) else st)"

lemma next_command_id_cong: "control w = control w' \<Longrightarrow> next_command_id w = next_command_id w' \<and> overload_mode w = overload_mode w' \<and> policies w = policies w'"
  by (simp add: control_def next_command_id_def)

lemma apply_policy_refines:
  "(overload_mode (apply_policy P clk avg pol w), next_command_id (apply_policy P clk avg pol w)) =
     policy_step avg pol (overload_mode w, next_command_id w)"
proof -
  let ?on = "act_mode (policy_action pol) = 1"
  let ?v = "snd (getNextId CMD_SET_MODE (w\<lparr>overload_mode := ?on\<rparr>))"
  have "overload_mode ?v = ?on" "next_command_id ?v = next_command_id w + 1"
    by (simp_all add: getNextId_def Let_def next_command_id_def update_conv')
  then have "overload_mode (command_loop P clk md hid xs ?v) = ?on" "next_command_id (command_loop P clk md hid xs ?v) = next_command_id w + 1" for md hid xs
    using next_command_id_cong [OF control_obs.obs_loops(2)] by simp_all
  then show ?thesis
    by (simp add: apply_policy_def policy_step_def Let_def case_prod_beta)
qed

lemma policy_loop_refines:
  "(overload_mode (policy_loop P clk avg pols w), next_command_id (policy_loop P clk avg pols w)) =
     fold (policy_step avg) pols (overload_mode w, next_command_id w)"
  by (induction P clk avg pols w rule: policy_loop.induct) (simp_all add: apply_policy_refines)

lemma apply_policy_policies: "policies (apply_policy P clk avg pol w) = policies w"
  using next_command_id_cong [OF control_obs.obs_loops(2)]
  by (simp add: apply_policy_def Let_def case_prod_beta) (simp add: getNextId_def Let_def)

lemma policy_loop_policies: "policies (policy_loop P clk avg pols w) = policies w"
  by (induction P clk avg pols w rule: policy_loop.induct) (simp_all add: apply_policy_policies)

text \<open>The recovery policy of the shipped configuration: below 40 percent, mode 0.\<close>

definition recovery_policy :: Policy where
  "recovery_policy = \<lparr>policy_name = ''recovery'',
     policy_condition = \<lparr>cond_metric = ''average_load'', cond_op = ''<'', cond_threshold = 0x42200000\<rparr>,
     policy_action = \<lparr>act_command = CMD_SET_MODE, act_mode = 0\<rparr>\<rparr>"

text \<open>The switch with hysteresis: on above 60, off below 40, as it was in between; and how often it is thrown.\<close>

definition hysteresis :: "f32 \<Rightarrow> bool \<Rightarrow> bool" where
  "hysteresis avg on = (if f32_less 0x42700000 avg then True else if f32_less avg 0x42200000 then False else on)"

fun switches :: "bool \<Rightarrow> f32 list \<Rightarrow> nat" where
  "switches on [] = 0"
| "switches on (avg # avgs) = (if hysteresis avg on = on then 0 else 1) + switches (hysteresis avg on) avgs"

text \<open>The thresholds do not overlap.\<close>

lemma thresholds_apart: "f32_less 0x42700000 avg \<Longrightarrow> \<not> f32_less avg 0x42200000"
proof -
  have "f32_value 0x42200000 < f32_value 0x42700000"
    by (simp add: f32_value_def f32_negative_def f32_abs_bits_def magnitude_def)
  then show "f32_less 0x42700000 avg \<Longrightarrow> \<not> f32_less avg 0x42200000"
    by (auto simp: f32_less_def)
qed

lemma shipped_policies_step:
  "fold (policy_step avg) [overload_policy, recovery_policy] (on, k) =
     (hysteresis avg on, k + (if hysteresis avg on = on then 0 else 1))"
  using thresholds_apart [of avg]
  by (auto simp: policy_step_def overload_policy_def recovery_policy_def condition_met_def hysteresis_def Let_def)

section \<open>A sequence of health checks\<close>

text \<open>
  Between two checks anything may happen that leaves the policies and their state alone, such as serving the connections: each
  check comes with what happened before it. The observed loads are collected.
\<close>

definition serves :: "(Controller \<Rightarrow> Controller) \<Rightarrow> bool" where
  "serves g \<longleftrightarrow> (\<forall>w. control (g w) = control w)"

lemma serving:
  "serves (\<lambda>w. snd (ctl_onMessage now ms i m w))" "serves (ctl_error_handler i ec)" "serves (accept_done now ms ec)"
  "serves (readHeader_done P ctl_error_handler i ec data)" "serves (write_done ctl_error_handler i ec)"
proof -
  have "control (snd (ctl_onMessage now ms i m w)) = control w" for w
    by (rule control_obs.obs_message [of now ms i m w "fst (ctl_onMessage now ms i m w)"]) simp
  then show "serves (\<lambda>w. snd (ctl_onMessage now ms i m w))"
    by (simp add: serves_def)
qed (simp_all add: serves_def control_client.readHeader_done_inv control_client.write_completion_inv)

fun health_checks :: "IMessageParser \<Rightarrow> ((Controller \<Rightarrow> Controller) \<times> (nat \<Rightarrow> time_point) \<times> (nat \<Rightarrow> nat \<Rightarrow> time_point)) list \<Rightarrow>
    Controller \<Rightarrow> f32 list \<times> Controller" where
  "health_checks P [] w = ([], w)"
| "health_checks P ((g, clk, clk') # xs) w =
     apfst (Cons (getAggregateLoad (ctl_store (g w)))) (health_checks P xs (check_sessions P clk clk' (g w)))"

lemma check_sessions_refines:
  assumes "policies w = [overload_policy, recovery_policy]"
  shows "overload_mode (check_sessions P clk clk' w) = hysteresis (getAggregateLoad (ctl_store w)) (overload_mode w)"
    "next_command_id (check_sessions P clk clk' w) = next_command_id w +
      (if hysteresis (getAggregateLoad (ctl_store w)) (overload_mode w) = overload_mode w then 0 else 1)"
    "policies (check_sessions P clk clk' w) = policies w"
proof -
  let ?v = "health_loop P clk (sessions w) w" and ?avg = "getAggregateLoad (ctl_store w)"
  have v: "next_command_id ?v = next_command_id w" "overload_mode ?v = overload_mode w" "policies ?v = policies w"
    using next_command_id_cong [OF control_obs.obs_loops(1)] by blast+
  have c: "check_sessions P clk clk' w = policy_loop P clk' ?avg (policies w) ?v"
    by (simp add: check_sessions_def Let_def health_loop_keeps v)
  have "(overload_mode (check_sessions P clk clk' w), next_command_id (check_sessions P clk clk' w)) =
      (hysteresis ?avg (overload_mode w), next_command_id w + (if hysteresis ?avg (overload_mode w) = overload_mode w then 0 else 1))"
    unfolding c policy_loop_refines by (simp only: assms v shipped_policies_step)
  then show "overload_mode (check_sessions P clk clk' w) = hysteresis ?avg (overload_mode w)"
    "next_command_id (check_sessions P clk clk' w) = next_command_id w + (if hysteresis ?avg (overload_mode w) = overload_mode w then 0 else 1)"
    by blast+
  show "policies (check_sessions P clk clk' w) = policies w"
    unfolding c by (simp add: policy_loop_policies v)
qed

section \<open>Properties\<close>

text \<open>C9: with the shipped policies the controller is a switch with hysteresis. Over any sequence of health checks, with anything the
  connections do in between, the overload switch follows the observed average loads through the specification: on above 60
  percent, off below 40, unchanged in between or when the average is not a number; and exactly one command id is used per
  change of the switch, so a load that stays on one side of the band causes no commands.\<close>

theorem policies_refine_hysteresis:
  assumes "policies w = [overload_policy, recovery_policy]" "\<And>g clk clk'. (g, clk, clk') \<in> set xs \<Longrightarrow> serves g"
    and "health_checks P xs w = (avgs, w')"
  shows "overload_mode w' = fold hysteresis avgs (overload_mode w) \<and>
    next_command_id w' = next_command_id w + word_of_nat (switches (overload_mode w) avgs) \<and> length avgs = length xs"
  using assms
proof (induction xs arbitrary: w avgs)
  case (Cons x xs)
  obtain g clk clk' where x: "x = (g, clk, clk')"
    by (cases x) auto
  then have "control (g w) = control w"
    using Cons.prems(2) [of g clk clk'] by (simp add: serves_def)
  then have g: "next_command_id (g w) = next_command_id w" "overload_mode (g w) = overload_mode w" "policies (g w) = policies w"
    using next_command_id_cong by blast+
  obtain bs where bs: "health_checks P xs (check_sessions P clk clk' (g w)) = (bs, w')" "avgs = getAggregateLoad (ctl_store (g w)) # bs"
    using Cons.prems(3) x by (cases "health_checks P xs (check_sessions P clk clk' (g w))") auto
  note c = check_sessions_refines [of "g w" P clk clk', unfolded g, OF Cons.prems(1)]
  have "overload_mode w' = fold hysteresis bs (overload_mode (check_sessions P clk clk' (g w))) \<and>
      next_command_id w' = next_command_id (check_sessions P clk clk' (g w)) +
        word_of_nat (switches (overload_mode (check_sessions P clk clk' (g w))) bs) \<and> length bs = length xs"
    using Cons.IH [OF _ _ bs(1)] c(3) Cons.prems(1,2) by auto
  then show ?case
    using c(1,2) bs(2) by simp
qed simp

text \<open>One agent reporting a load.\<close>

definition reported :: "f32 \<Rightarrow> Controller \<Rightarrow> Controller" where
  "reported l w = w\<lparr>ctl_store := updateAgentState 100 \<lparr>state_mode = 0, state_load = l, state_temp = 0, state_last_rc = 0\<rparr> 0 (ctl_store w)\<rparr>"

lemma reported_load:
  assumes "states (ctl_store w) = [] \<or> (\<exists>st. states (ctl_store w) = [(100, st)])" "\<not> f32_is_nan l" "\<not> f32_is_inf l" "\<not> f32_negative l"
  shows "getAggregateLoad (ctl_store (reported l w)) = l" "\<exists>st. states (ctl_store (reported l w)) = [(100, st)]" "serves (reported l)"
proof -
  let ?st = "\<lparr>state_mode = 0, state_load = l, state_temp = 0, state_last_rc = 0\<rparr>"
  have "ctl_store (reported l w) = \<lparr>states = [(100, ?st)]\<rparr>"
    using assms(1) by (cases "ctl_store w") (auto simp: reported_def updateAgentState_def)
  then show "getAggregateLoad (ctl_store (reported l w)) = l" "\<exists>st. states (ctl_store (reported l w)) = [(100, st)]"
    using assms(2-4) single_report_average [of ?st 100] by simp_all
  show "serves (reported l)"
    by (simp add: serves_def reported_def)
qed

lemma check_sessions_store: "ctl_store (check_sessions P clk clk' w) = ctl_store w"
proof -
  have "ctl_store (apply_policy P clk avg pol w) = ctl_store w" for clk avg pol w
    by (simp add: apply_policy_def getNextId_def Let_def command_loop_keeps)
  then have "ctl_store (policy_loop P clk avg pols w) = ctl_store w" for clk avg pols w
    by (induction P clk avg pols w rule: policy_loop.induct) simp_all
  then show ?thesis
    by (simp add: check_sessions_def Let_def health_loop_keeps)
qed

text \<open>100 percent, then 50, then 10.\<close>

theorem policies_refine_hysteresis_witness:
  "\<exists>w'. health_checks (BinaryMessageParser 0) [(reported 0x42C80000, \<lambda>k. 0, \<lambda>j k. 0), (reported 0x42480000, \<lambda>k. 0, \<lambda>j k. 0),
       (reported 0x41200000, \<lambda>k. 0, \<lambda>j k. 0)] (sample_ctl\<lparr>policies := [overload_policy, recovery_policy]\<rparr>) =
     ([0x42C80000, 0x42480000, 0x41200000], w') \<and> \<not> overload_mode w' \<and> next_command_id w' = 2"
proof -
  let ?P = "BinaryMessageParser 0" and ?w = "sample_ctl\<lparr>policies := [overload_policy, recovery_policy]\<rparr>"
  let ?xs = "[(reported 0x42C80000, \<lambda>k. 0, \<lambda>j k. 0), (reported 0x42480000, \<lambda>k. 0, \<lambda>j k. 0), (reported 0x41200000, \<lambda>k. 0, \<lambda>j k. 0)]"
  have f: "\<not> f32_is_nan 0x42C80000 \<and> \<not> f32_is_inf 0x42C80000 \<and> \<not> f32_negative 0x42C80000"
      "\<not> f32_is_nan 0x42480000 \<and> \<not> f32_is_inf 0x42480000 \<and> \<not> f32_negative 0x42480000"
      "\<not> f32_is_nan 0x41200000 \<and> \<not> f32_is_inf 0x41200000 \<and> \<not> f32_negative 0x41200000"
    by (simp_all add: f32_is_nan_def f32_is_inf_def f32_negative_def f32_abs_bits_def f32_inf_bits_def)
  let ?w1 = "check_sessions ?P (\<lambda>k. 0) (\<lambda>j k. 0) (reported 0x42C80000 ?w)"
  let ?w2 = "check_sessions ?P (\<lambda>k. 0) (\<lambda>j k. 0) (reported 0x42480000 ?w1)"
  have s0: "states (ctl_store ?w) = []"
    by (simp add: sample_ctl_simps)
  note r0 = reported_load [of ?w, OF disjI1 [OF s0]]
  have s1: "\<exists>st. states (ctl_store ?w1) = [(100, st)]"
    using r0(2) f(1) by (simp add: check_sessions_store)
  note r1 = reported_load [of ?w1, OF disjI2 [OF s1]]
  have s2: "\<exists>st. states (ctl_store ?w2) = [(100, st)]"
    using r1(2) f(2) by (simp add: check_sessions_store)
  note r2 = reported_load [of ?w2, OF disjI2 [OF s2]]
  obtain w' where w': "health_checks ?P ?xs ?w = ([0x42C80000, 0x42480000, 0x41200000], w')"
    using r0(1) r1(1) r2(1) f by auto
  have p: "policies ?w = [overload_policy, recovery_policy]" by simp
  have "serves g" if "(g, clk, clk') \<in> set ?xs" for g clk clk'
    using that r0(3) f by auto
  from policies_refine_hysteresis [OF p this w'] w' show ?thesis
    by (simp add: sample_ctl_simps next_command_id_def hysteresis_def f32_less_def f32_is_nan_def f32_abs_bits_def f32_inf_bits_def
        f32_value_def f32_negative_def magnitude_def)
qed

section \<open>A controller under load\<close>

text \<open>The sample controller with both policies: its agent reports 100 percent, a health check throws the switch.\<close>

definition policed_ctl :: Controller where
  "policed_ctl = addPolicy recovery_policy (addPolicy overload_policy sample_ctl)"

definition busy_ctl :: Controller where
  "busy_ctl = startHealthCheck (check_sessions (BinaryMessageParser 0) (\<lambda>k. 0) (\<lambda>j k. 0)
     (reported 0x42C80000 policed_ctl\<lparr>timer_pending := False\<rparr>))"

lemma policed_ctl_simps:
  "policies policed_ctl = [overload_policy, recovery_policy]" "states (ctl_store policed_ctl) = []"
  "lock_context 0 policed_ctl = Some (0, sample_session)" "services policed_ctl = services sample_ctl"
  by (simp_all add: policed_ctl_def lock_context_def addPolicy_def sample_ctl_simps getContext_def setContext_def)

lemma policed_report_run: "ctl_run P no_json HELLO {} (reported l policed_ctl)"
proof -
  let ?st = "\<lparr>state_mode = 0, state_load = l, state_temp = 0, state_last_rc = 0\<rparr>"
  have r: "ctl_run P no_json HELLO {} policed_ctl"
    unfolding policed_ctl_def by (intro ctl_add sample_ctl_run)
  have "ctl_onMessage 0 0 0 (new_Message 0 STATE (State_serialize ?st) 100 0 0) policed_ctl = (None, reported l policed_ctl)"
    by (simp add: policed_ctl_simps ctl_onMessage_def new_Message_def message_type_defs state.des_ser reported_def getAgentId_def
        sample_session_def updateAgentState_def)
  then show ?thesis
    by (rule ctl_message [OF r, rotated]) (simp add: policed_ctl_def addPolicy_def sample_ctl_simps)
qed

lemma reported_services [simp]: "services (reported l w) = services w"
  by (simp add: reported_def)

lemma sample_services: "timer_pending sample_ctl" "\<not> ctl_shutting_down sample_ctl"
  using ctl_run_in_service [OF sample_ctl_run [of "BinaryMessageParser 0" HELLO]] sample_ctl_simps(6) by (simp_all add: in_service_def)

lemma busy_ctl_run:
  "ctl_run (BinaryMessageParser 0) no_json HELLO {} busy_ctl" "accept_pending busy_ctl" "\<not> ctl_shutting_down busy_ctl"
proof -
  let ?P = "BinaryMessageParser 0"
  let ?w = "reported 0x42C80000 policed_ctl"
  have s: "services ?w = services sample_ctl"
    by (simp add: policed_ctl_simps)
  show run: "ctl_run ?P no_json HELLO {} busy_ctl"
  proof (rule ctl_tick [OF policed_report_run, where ec = success and f = no_file and g = no_file])
    show "health_check_done ?P no_json HELLO no_file no_file (\<lambda>k. 0) (\<lambda>j k. 0) success ?w = Inr busy_ctl"
      by (simp add: health_check_done_def checkPolicyUpdate_def no_file_def busy_ctl_def Let_def)
    show "timer_pending ?w"
      using s sample_services(1) by (simp add: services_def)
  qed simp
  have "services (check_sessions ?P (\<lambda>k. 0) (\<lambda>j k. 0) (?w\<lparr>timer_pending := False\<rparr>)) = services (sample_ctl\<lparr>timer_pending := False\<rparr>)"
    unfolding service_obs.obs_check using s by (simp add: services_def reported_def)
  then show up: "\<not> ctl_shutting_down busy_ctl"
    using sample_services(2) by (simp add: services_def busy_ctl_def startHealthCheck_def)
  show "accept_pending busy_ctl"
    using ctl_run_in_service [OF run] up by (simp add: in_service_def)
qed

lemma busy_ctl_simps:
  "policies busy_ctl = [overload_policy, recovery_policy]" "overload_mode busy_ctl" "getAggregateLoad (ctl_store busy_ctl) = 0x42C80000"
proof -
  let ?load = "0x42C80000"
  let ?w = "reported ?load policed_ctl\<lparr>timer_pending := False\<rparr>"
  have "\<not> f32_is_nan ?load" "\<not> f32_is_inf ?load" "\<not> f32_negative ?load"
    by (simp_all add: f32_is_nan_def f32_is_inf_def f32_negative_def f32_abs_bits_def f32_inf_bits_def)
  then have load: "getAggregateLoad (ctl_store ?w) = ?load"
    using reported_load(1) [OF disjI1 [OF policed_ctl_simps(2)]] by simp
  have p: "policies ?w = [overload_policy, recovery_policy]"
    by (simp add: reported_def policed_ctl_simps)
  note c = check_sessions_refines [OF p, of "BinaryMessageParser 0" "\<lambda>k. 0" "\<lambda>j k. 0", unfolded load]
  have start: "policies (startHealthCheck w) = policies w" "overload_mode (startHealthCheck w) = overload_mode w"
      "ctl_store (startHealthCheck w) = ctl_store w" for w
    by (simp_all add: startHealthCheck_def)
  show "policies busy_ctl = [overload_policy, recovery_policy]"
    using c(3) p by (simp add: busy_ctl_def start)
  show "overload_mode busy_ctl"
    using c(1) by (simp add: busy_ctl_def start hysteresis_def f32_less_def f32_is_nan_def f32_abs_bits_def f32_inf_bits_def
        f32_value_def f32_negative_def magnitude_def)
  show "getAggregateLoad (ctl_store busy_ctl) = 0x42C80000"
    unfolding busy_ctl_def start check_sessions_store by (rule load)
qed

lemma accept_done_more:
  "\<exists>c. conns (accept_done now ms success w) (next_conn w) = Some c \<and> user_context c = None" "ctl_store (accept_done now ms ec w) = ctl_store w"
  by (simp_all add: accept_done_def new_AgentTcpSession_def destroy_session_def add_active_def doAccept_def Let_def case_prod_beta upd_conn_def
      upd_tracker_def tcp_defs new_TcpComm_def)

lemma register_store: "ctl_store (register_agent now ms i aid w) = ctl_store w"
  by (simp add: register_agent_def new_AgentTcpSession_def assign_session_def Let_def case_prod_beta split: option.split)

end
