(* ===== verification/Fleet_Late.thy ===== *)
theory Fleet_Late
  imports Fleet_Vitals Fleet_Policy
begin

text \<open>
  An agent that registers while the overload switch is on. The switch belongs to the whole fleet, so no health check commands the
  newcomer until the switch changes; followed here over any history of messages, failures and health checks.
\<close>

section \<open>Connections that get no command\<close>

text \<open>No command is pending for a session on connection \<open>i\<close>, and \<open>x\<close> are the frames ever sent on it.\<close>

definition quiet :: "nat \<Rightarrow> bytes list option \<Rightarrow> Controller \<Rightarrow> bool" where
  "quiet i x w \<longleftrightarrow>
     (\<forall>n s. sess w n = Some s \<longrightarrow> session_conn s = Some i \<longrightarrow> pending_cmds s = []) \<and> map_option accounted (conns w i) = x"

lemma quiet_fields [simp]:
  "quiet i x (w\<lparr>msgs := x1\<rparr>) = quiet i x w" "quiet i x (w\<lparr>ctl_store := x2\<rparr>) = quiet i x w" "quiet i x (w\<lparr>sessions := x3\<rparr>) = quiet i x w"
  "quiet i x (w\<lparr>next_sess := x4\<rparr>) = quiet i x w" "quiet i x (upd_tracker f w) = quiet i x w" "quiet i x (add_active d w) = quiet i x w"
  "quiet i x (add_failures k w) = quiet i x w" "quiet i x (destroy_session s w) = quiet i x w"
  by (simp_all add: quiet_def upd_tracker_def add_active_def add_failures_def destroy_session_def)






section \<open>What keeps a connection quiet\<close>





section \<open>Under load\<close>







section \<open>Property\<close>



end
