(* ===== verification/Fleet_Bytes.thy ===== *)
theory Fleet_Bytes
  imports Fleet_Link
begin

text \<open>
  Arbitrary bytes on a connection. Whatever a peer sends, in whatever pieces, the read loop writes inside its buffer, the parser reads inside
  it, and the handlers of the controller and of the agent throw nothing but exceptions the loop catches: no undefined behaviour can
  be caused from outside, not even by a length prefix whose 32-bit frame size wraps.
\<close>

section \<open>The contract of the handlers\<close>

locale safe_handlers =
  fixes mh :: "'a io_world_scheme MessageHandler" and eh :: "'a io_world_scheme ErrorHandler"
  assumes mh_exception: "mh i m w = (Some e, w') \<Longrightarrow> is_exception e"
    and mh_readers: "mh i m w = (r, w') \<Longrightarrow> readers w' = readers w"
    and eh_readers: "readers (eh i ec w) = readers w"

text \<open>The outstanding read fits the buffer; a body is read for the frame whose header is in the buffer.\<close>

definition read_fits :: "TcpComm \<Rightarrow> bool" where
  "read_fits c \<longleftrightarrow>
     (case reading c of
        None \<Rightarrow> True
      | Some Header_read \<Rightarrow> getHeaderSize \<le> length (read_buffer c)
      | Some (Body_read tot) \<Rightarrow> tot \<le> length (read_buffer c) \<and>
          (\<exists>l. read_u32_be (read_buffer c) 0 = Inr l \<and> tot = getHeaderSize + unat l + 4))"

lemma read_fits_readers:
  assumes "readers w' i = readers w i" "conns w i = Some c" "read_fits c"
  obtains c' where "conns w' i = Some c'" "read_fits c'" "reading c' = reading c" "read_buffer c' = read_buffer c"
proof -
  obtain c' where c': "conns w' i = Some c'" "reading c' = reading c" "read_buffer c' = read_buffer c"
    using assms(1,2) by (auto simp: readers_def)
  moreover have "read_fits c'"
    using assms(3) by (simp only: read_fits_def c'(2,3))
  ultimately show thesis using that by blast
qed

lemma header_fits:
  assumes c: "getHeaderSize \<le> length (read_buffer c)" and d: "length data = getHeaderSize"
  shows "read_fits (header_received getHeaderSize data c)"
proof -
  let ?buf = "overwrite (read_buffer c) 0 data"
  let ?tot = "getHeaderSize + unat (be32_prefix ?buf) + 4"
  let ?new = "if ?tot > length ?buf then resize ?buf ?tot else ?buf"
  have len: "length ?buf = length (read_buffer c)" "23 \<le> length ?buf"
    using c d by (simp_all add: overwrite_def getHeaderSize_def)
  obtain l where l: "read_u32_be ?buf 0 = Inr l"
    using u32.get_ok_iff [of ?buf 0] len(2) by auto
  then have "be32_prefix ?buf = l"
    by (rule be32_prefix_eq) simp
  moreover have "read_u32_be ?new 0 = Inr l"
  proof -
    have "take 4 ?new = take 4 ?buf"
      using len(2) by (simp add: take_resize)
    then show ?thesis
      using l len(2) by (subst read_u32_be_take4 [of _ ?buf]) simp_all
  qed
  moreover have "?tot \<le> length ?new"
    by simp
  ultimately show ?thesis
    by (simp add: read_fits_def header_received_def Let_def readBody_def)
qed

text \<open>With the body read, the parser stays inside the buffer.\<close>

lemma parse_in_bounds:
  assumes "read_fits c" "reading c = Some (Body_read tot)" "length data = tot - getHeaderSize" "deserialize now (overwrite (read_buffer c) getHeaderSize data) = Inl e"
  shows "is_exception e"
proof -
  let ?buf = "overwrite (read_buffer c) getHeaderSize data"
  obtain l where l: "read_u32_be (read_buffer c) 0 = Inr l" "tot = getHeaderSize + unat l + 4" "tot \<le> length (read_buffer c)"
    using assms(1,2) by (auto simp: read_fits_def)
  have len: "length ?buf = length (read_buffer c)" "27 + unat l \<le> length ?buf"
    using l(2,3) assms(3) by (simp_all add: overwrite_def getHeaderSize_def)
  have "take 4 ?buf = take 4 (read_buffer c)"
    using l(2,3) by (simp add: overwrite_def getHeaderSize_def)
  then have "read_u32_be ?buf 0 = Inr l"
    using l(1) len by (subst read_u32_be_take4 [of _ "read_buffer c"]) simp_all
  from deserialize_in_bounds [OF this len(2), of now] assms(4) show ?thesis by auto
qed

lemma body_fits:
  assumes "read_fits c" "reading c = Some (Body_read tot)" "length data = tot - getHeaderSize"
  shows "getHeaderSize \<le> length (overwrite (read_buffer c) getHeaderSize data)"
  using assms by (auto simp: read_fits_def overwrite_def)

context safe_handlers
begin

lemma error_handled:
  assumes "conns w i = Some c" "read_fits c"
  shows "\<exists>c'. conns (call_err_handler eh i ec w) i = Some c' \<and> read_fits c'"
proof -
  have "readers (call_err_handler eh i ec w) i = readers w i"
    by (simp add: call_err_handler_def eh_readers split: option.split)
  then show ?thesis
    using read_fits_readers [OF _ assms] by blast
qed

lemma dispatch_safe:
  assumes c: "conns w i = Some c" "reading c = None" "getHeaderSize \<le> length (read_buffer c)"
    and p: "\<And>e. deserialize now (read_buffer c) = Inl e \<Longrightarrow> is_exception e"
  shows "\<exists>w' c'. dispatch_frame (BinaryMessageParser now) mh eh i tot c w = Inr w' \<and> conns w' i = Some c' \<and> read_fits c'"
proof -
  have fits: "read_fits c"
    using c(2) by (simp add: read_fits_def)
  have again: "\<exists>c'. conns (upd_conn i readHeader v) i = Some c' \<and> read_fits c'" if "readers v i = readers w i" for v
    using that c by (auto simp: readers_def readHeader_def read_fits_def)
  have handled: "\<exists>w' c'. caught eh i e v = Inr w' \<and> conns w' i = Some c' \<and> read_fits c'" if e: "is_exception e" and v: "readers v i = readers w i" for e v
  proof -
    obtain d where "conns v i = Some d" "read_fits d"
      using read_fits_readers [OF v c(1) fits] by blast
    then show ?thesis
      using e error_handled by (auto simp: caught_def)
  qed
  show ?thesis
  proof (cases "deserialize now (read_buffer c)")
    case (Inl e)
    then show ?thesis
      using handled [OF p [OF Inl] refl] by (simp add: dispatch_frame_def)
  next
    case (Inr x)
    obtain msg n where x: "x = (msg, n)" by force
    show ?thesis
    proof (cases "if n = tot \<and> msg_handler_set c then msg else None")
      case None
      then show ?thesis
        using Inr x again [of w] by (simp add: dispatch_frame_def)
    next
      case (Some m)
      obtain r v where v: "mh i m w = (r, v)" by force
      then have "readers v i = readers w i"
        using mh_readers by simp
      with v Some Inr x show ?thesis
        using again [of v] handled [of _ v] mh_exception [of i m w _ v] by (cases r) (auto simp: dispatch_frame_def)
    qed
  qed
qed

lemma feed_safe:
  "conns w i = Some c \<Longrightarrow> read_fits c \<Longrightarrow>
   \<exists>s' w' c'. feed n (BinaryMessageParser now) mh eh i s w = Inr (s', w') \<and> conns w' i = Some c' \<and> read_fits c'"
proof (induction n arbitrary: s w c)
  case 0
  then show ?case by (simp add: feed.simps)
next
  case (Suc n)
  let ?P = "BinaryMessageParser now"
  show ?case
  proof (cases "reading c")
    case None
    then show ?thesis
      using Suc.prems feed_stopped [of w i c "Suc n"] by simp
  next
    case (Some r)
    show ?thesis
    proof (cases r)
      case Header_read
      with Some Suc.prems(2) have room: "getHeaderSize \<le> length (read_buffer c)"
        by (simp add: read_fits_def)
      let ?w = "readHeader_done ?P eh i success (take getHeaderSize s) w"
      have "conns ?w i = Some (header_received getHeaderSize (take getHeaderSize s) c)"
        using Suc.prems(1) by (simp add: readHeader_done_def)
      then show ?thesis
        using Suc.IH [of ?w] header_fits [OF room, of "take getHeaderSize s"] Some Header_read Suc.prems
        by (auto simp: feed.simps Let_def)
    next
      case (Body_read tot)
      let ?k = "tot - getHeaderSize"
      show ?thesis
      proof (cases "length s < ?k")
        case True
        then show ?thesis
          using Some Body_read Suc.prems by (simp add: feed.simps Let_def)
      next
        case False
        let ?c = "c\<lparr>read_buffer := overwrite (read_buffer c) getHeaderSize (take ?k s), reading := None\<rparr>"
        let ?w = "w\<lparr>conns := (conns w)(i \<mapsto> ?c)\<rparr>"
        have rd: "reading c = Some (Body_read tot)" "length (take ?k s) = ?k"
          using Some Body_read False by simp_all
        obtain w' c' where w': "dispatch_frame ?P mh eh i tot ?c ?w = Inr w'" "conns w' i = Some c'" "read_fits c'"
          using dispatch_safe [of ?w i ?c now tot] parse_in_bounds [OF Suc.prems(2) rd] body_fits [OF Suc.prems(2) rd] by auto
        have "readBody_done ?P mh eh i tot success (take ?k s) w = Inr w'"
          using Suc.prems(1) w'(1) by (simp add: readBody_done_def upd_conn_def)
        then show ?thesis
          using Suc.IH [OF w'(2,3), of "drop ?k s"] False rd(1) Suc.prems(1) by (simp add: feed.simps Let_def)
      qed
    qed
  qed
qed

end

section \<open>The handlers of the program\<close>

interpretation reader_obs: observation "readers :: Controller \<Rightarrow> nat \<Rightarrow> (read_op option \<times> bytes \<times> bool \<times> bool) option"
proof
  show "readers (post_on cn ts w) = readers w" for cn ts and w :: Controller
    by (simp add: post_on_def post_def readers_upd_conn split: option.split)
  show "readers (upd_conn i (setContext x) w) = readers w" for i x and w :: Controller
    by (simp add: setContext_def readers_upd_conn)
qed (simp_all add: upd_tracker_def readers_def fun_eq_iff)

interpretation ctl_safe: safe_handlers "ctl_onMessage now ms" ctl_error_handler
  for now ms
proof
  show "is_exception e" if "ctl_onMessage now ms i m w = (Some e, w')" for i m w e w'
    using that
    by (auto simp: ctl_onMessage_def hello.des_error_iff state.des_error_iff ack.des_error_iff nack.des_error_iff
        split: option.splits if_splits sum.splits prod.splits)
qed (simp_all add: reader_obs.obs_message)

lemma agent_readers:
  "agent_onMessage P t i m a = (r, b) \<Longrightarrow> readers b = readers a" "readers (agent_error_handler i ec a) = readers a"
proof -
  have fields: "readers (a\<lparr>agent_counters := x1\<rparr>) = readers a" "readers (a\<lparr>msg_ack := x2\<rparr>) = readers a" "readers (a\<lparr>msg_nack := x3\<rparr>) = readers a"
      "readers (a\<lparr>cmd_set_mode_header_id := x4\<rparr>) = readers a" "readers (a\<lparr>current_mode := x5\<rparr>) = readers a" "readers (a\<lparr>last_cmd_rc := x6\<rparr>) = readers a"
      "readers (a\<lparr>agent_conn := x7\<rparr>) = readers a" "readers (a\<lparr>agent_retries := x8\<rparr>) = readers a" "readers (a\<lparr>waiting := x9\<rparr>) = readers a"
    for a :: Agent and x1 x2 x3 x4 x5 x6 x7 x8 x9
    by (simp_all add: readers_def fun_eq_iff)
  have send: "readers (send_if_connected P m a) = readers a" for m a
    by (simp add: send_if_connected_def tcp_send_def readers_upd_conn split: option.split)
  have "readers (sendAck P t c a) = readers a" "readers (sendNack P t c r a) = readers a" for t c r a
    by (simp_all add: sendAck_def sendNack_def getNextHeaderId_def Let_def send fields)
  then show "readers b = readers a" if "agent_onMessage P t i m a = (r, b)"
    using that by (auto simp: agent_onMessage_def Let_def fields split: if_splits sum.splits)
  show "readers (agent_error_handler i ec a) = readers a"
    by (simp add: agent_error_handler_def handleConnectionError_def set_timer_def tcp_disconnect_def Let_def fields readers_upd_conn split: option.split)
qed

interpretation agent_safe: safe_handlers "agent_onMessage P t" agent_error_handler
  for P t
proof
  show "is_exception e" if "agent_onMessage P t i m a = (Some e, b)" for i m a e b
    using that by (auto simp: agent_onMessage_def Let_def set_mode.des_error_iff split: if_splits sum.splits)
qed (simp_all add: agent_readers)

section \<open>Property\<close>

text \<open>C29: no bytes from outside cause undefined behaviour. Let any bytes arrive at a connection of the controller or of an agent that is
  ready to read; however many reads complete on them, every read fits its buffer, the parser never leaves the buffer - also if the announced
  length wraps the 32-bit frame size - no exception escapes the loop, and the next read, if one is pending, fits again.\<close>

theorem received_bytes_in_bounds:
  assumes "conns w i = Some c" "receptive getHeaderSize c" "conns a j = Some d" "receptive getHeaderSize d"
  shows "(\<exists>s' w' c'. feed n (BinaryMessageParser u) (ctl_onMessage now ms) ctl_error_handler i s w = Inr (s', w') \<and>
      conns w' i = Some c' \<and> read_fits c') \<and>
    (\<exists>s' a' d'. feed n (BinaryMessageParser u) (agent_onMessage (BinaryMessageParser u) t) agent_error_handler j s a = Inr (s', a') \<and>
      conns a' j = Some d' \<and> read_fits d')"
proof -
  have "read_fits c" "read_fits d"
    using assms(2,4) by (simp_all add: receptive_def read_fits_def)
  then show ?thesis
    using ctl_safe.feed_safe [OF assms(1)] agent_safe.feed_safe [OF assms(3)] by blast
qed

text \<open>A frame with a wrong checksum, and a header that announces four gigabytes.\<close>

theorem received_bytes_in_bounds_witness:
  "(\<exists>s' w'. feed 9 (BinaryMessageParser 0) (ctl_onMessage 0 0) ctl_error_handler 0 (replicate 27 0 @ replicate 100 255) dispatched_ctl = Inr (s', w')) \<and>
   (\<exists>s' a'. feed 9 (BinaryMessageParser 0) (agent_onMessage (BinaryMessageParser 0) 0) agent_error_handler 0
     (replicate 27 0 @ replicate 100 255) greeting_agent = Inr (s', a'))"
proof -
  obtain c where c: "conns dispatched_ctl 0 = Some c" "receptive getHeaderSize c"
    using dispatched_ctl_run(2) by auto
  obtain d where d: "conns greeting_agent 0 = Some d" "receptive getHeaderSize d"
    using greeting_agent_run(2) by auto
  from received_bytes_in_bounds [OF c d, of 9 0 0 0 "replicate 27 0 @ replicate 100 255" 0] show ?thesis by blast
qed

end
