(* ===== verification/Fleet_Shutdown.thy ===== *)
theory Fleet_Shutdown
  imports Fleet_Policy Fleet_Dispatch
begin

text \<open>
  The shutdown of the controller: what it hands to the connections, and that it is final. The pending commands of a session share one
  message object, so one frame per pending command is sent, but all of them carry the command the object holds.
\<close>

section \<open>A session with a pending command\<close>









section \<open>Property\<close>



end
