(* ===== verification/Policy_Files.thy ===== *)
theory Policy_Files
  imports Fleet_Policy
begin

text \<open>
  Loading policies from the configuration file. The JSON library is a parameter; what the code relies on, that a value of the document is
  read back by the accessor of its type, is the locale \<open>json_values\<close>. A file that describes a list of policies is loaded to
  exactly this list.
\<close>

section \<open>Documents\<close>

locale json_values =
  fixes J :: "'j json_api" and obj :: "(string \<times> 'j) list \<Rightarrow> 'j" and arr :: "'j list \<Rightarrow> 'j"
    and str :: "string \<Rightarrow> 'j" and num :: "f32 \<Rightarrow> 'j" and whole :: "u32 \<Rightarrow> 'j"
  assumes at_obj: "map_of kvs k = Some v \<Longrightarrow> json_at J (obj kvs) k = Inr v"
    and items_arr: "json_items J (arr xs) = Inr xs"
    and string_str: "json_string J (str s) = Inr s"
    and float_num: "json_float J (num x) = Inr x"
    and u32_whole: "json_u32 J (whole n) = Inr n"

text \<open>The form of \<^verbatim>\<open>configs/policy.json\<close>.\<close>

definition policy_json :: "((string \<times> 'j) list \<Rightarrow> 'j) \<Rightarrow> (string \<Rightarrow> 'j) \<Rightarrow> (f32 \<Rightarrow> 'j) \<Rightarrow> (u32 \<Rightarrow> 'j) \<Rightarrow> Policy \<Rightarrow> 'j" where
  "policy_json obj str num whole p =
     obj [(''name'', str (policy_name p)),
          (''condition'', obj [(''metric'', str (cond_metric (policy_condition p))), (''operator'', str (cond_op (policy_condition p))),
             (''threshold'', num (cond_threshold (policy_condition p)))]),
          (''action'', obj [(''command'', str ''CMD_SET_MODE''), (''mode'', whole (act_mode (policy_action p)))])]"

definition policies_json ::
    "((string \<times> 'j) list \<Rightarrow> 'j) \<Rightarrow> ('j list \<Rightarrow> 'j) \<Rightarrow> (string \<Rightarrow> 'j) \<Rightarrow> (f32 \<Rightarrow> 'j) \<Rightarrow> (u32 \<Rightarrow> 'j) \<Rightarrow> Policy list \<Rightarrow> 'j" where
  "policies_json obj arr str num whole ps = obj [(''policies'', arr (map (policy_json obj str num whole) ps))]"

definition mode_policy :: "Policy \<Rightarrow> bool" where
  "mode_policy p \<longleftrightarrow> act_command (policy_action p) = CMD_SET_MODE"

context json_values
begin

lemma parse_policy_json:
  assumes "mode_policy p"
  shows "parse_policy J junk (policy_json obj str num whole p) = Inr p"
proof -
  have "\<lparr>policy_name = policy_name p, policy_condition = \<lparr>cond_metric = cond_metric (policy_condition p), cond_op = cond_op (policy_condition p),
      cond_threshold = cond_threshold (policy_condition p)\<rparr>,
      policy_action = \<lparr>act_command = CMD_SET_MODE, act_mode = act_mode (policy_action p)\<rparr>\<rparr> = p"
    using assms by (simp add: mode_policy_def)
  then show ?thesis
    by (simp add: parse_policy_def policy_json_def at_obj string_str float_num u32_whole err_simps)
qed

lemma parse_policies_json:
  "list_all mode_policy ps \<Longrightarrow> parse_policies J junk (map (policy_json obj str num whole) ps) = Inr ps"
  by (induction ps) (simp_all add: parse_policy_json err_simps)

lemma read_policies_json:
  assumes "file_json f = Inr (policies_json obj arr str num whole ps)" "list_all mode_policy ps"
  shows "read_policies J junk f = Inr ps"
  using assms by (simp add: read_policies_def policies_json_def at_obj items_arr parse_policies_json err_simps)

end

section \<open>A library\<close>

text \<open>
  An implementation of the accessors: an object is read by key, an array by element, and a value of another type throws; a key that a constant
  object does not have is read past its end.
\<close>

datatype json_value = J_object "(string \<times> json_value) list" | J_array "json_value list" | J_string string | J_float f32 | J_whole u32

fun value_at :: "json_value \<Rightarrow> string \<Rightarrow> exn + json_value" where
  "value_at (J_object kvs) k = (case map_of kvs k of None \<Rightarrow> Inl out_of_bounds | Some v \<Rightarrow> Inr v)"
| "value_at v k = Inl (json_error ''type_error.305'')"

fun value_items :: "json_value \<Rightarrow> exn + json_value list" where
  "value_items (J_object kvs) = Inr (map snd kvs)"
| "value_items (J_array vs) = Inr vs"
| "value_items v = Inr [v]"

fun value_string :: "json_value \<Rightarrow> exn + string" where
  "value_string (J_string s) = Inr s"
| "value_string v = Inl (json_error ''type_error.302'')"

fun value_float :: "json_value \<Rightarrow> exn + f32" where
  "value_float (J_float x) = Inr x"
| "value_float v = Inl (json_error ''type_error.302'')"

fun value_u32 :: "json_value \<Rightarrow> exn + u32" where
  "value_u32 (J_whole n) = Inr n"
| "value_u32 v = Inl (json_error ''type_error.302'')"

definition value_api :: "json_value json_api" where
  "value_api = \<lparr>json_at = value_at, json_items = value_items, json_string = value_string, json_float = value_float, json_u32 = value_u32\<rparr>"

interpretation json_lib: json_values value_api J_object J_array J_string J_float J_whole
  by unfold_locales (simp_all add: value_api_def)

text \<open>The shipped file.\<close>

definition shipped_file :: "json_value policy_file" where
  "shipped_file = \<lparr>file_exists = Inr True,
     file_json = Inr (policies_json J_object J_array J_string J_float J_whole [overload_policy, recovery_policy]), file_time = Inr 1\<rparr>"

lemma shipped_mode_policies: "list_all mode_policy [overload_policy, recovery_policy]"
  by (simp add: mode_policy_def overload_policy_def recovery_policy_def)

section \<open>Property\<close>

text \<open>C25: the configuration is what the file says. If the file describes a list of mode policies, a controller constructed on it starts with
  exactly these policies, in the order of the file, whatever the uninitialised members held, and with the time of the file; the accessors of the JSON library
  are assumed to read back the values of a document.\<close>

theorem policy_file_loaded:
  assumes "json_values J obj arr str num whole" "file_exists f = Inr True" "file_time f = Inr t"
    and "file_json f = Inr (policies_json obj arr str num whole ps)" "list_all mode_policy ps"
  shows "\<exists>w. new_Controller J junk f ms = Inr w \<and> policies w = ps \<and> last_policy_file_time w = t \<and> \<not> overload_mode w \<and> sessions w = []"
  using assms json_values.read_policies_json [OF assms(1,4,5), of junk]
  by (simp add: new_Controller_def loadPolicies_def Let_def err_simps startHealthCheck_def doAccept_def)

theorem policy_file_loaded_witness:
  "\<exists>w. new_Controller value_api HELLO shipped_file empty_pool = Inr w \<and> policies w = [overload_policy, recovery_policy]"
  using policy_file_loaded [OF json_lib.json_values_axioms, of shipped_file 1 "[overload_policy, recovery_policy]" HELLO empty_pool]
    shipped_mode_policies by (auto simp: shipped_file_def)

end
