(* ===== verification/Entry_Points.thy ===== *)
theory Entry_Points
  imports Fleet_Service Fleet_Agent
begin

text \<open>
  The two \<^verbatim>\<open>main\<close> functions, \<^verbatim>\<open>src/controller/main.cpp\<close> and \<^verbatim>\<open>src/agent/main.cpp\<close>, up to the call of \<^verbatim>\<open>ioc.run()\<close>: the
  arguments, the conversions of the port and of the agent id, and the \<^verbatim>\<open>try\<close> block around everything.
\<close>

text \<open>A \<^verbatim>\<open>main\<close> returns an exit code after writing to the error stream, or enters the event loop.\<close>

datatype 'a main_result = Returns int string | Event_loop 'a

definition catch_main :: "exn + 'a \<Rightarrow> exn + 'a main_result" where
  "catch_main r =
     (case r of
        Inr x \<Rightarrow> Inr (Event_loop x)
      | Inl e \<Rightarrow> if is_exception e then Inr (Returns 0 (''Exception: '' @ what e @ nl)) else Inl e)"

text \<open>\<open>resolved\<close> is the outcome of the name resolution, the \<open>t\<close>s are the clock readings of the constructor.\<close>

definition agent_main :: "exn + unit \<Rightarrow> u64 \<Rightarrow> u64 \<Rightarrow> u64 \<Rightarrow> u64 \<Rightarrow> u64 \<Rightarrow> string list \<Rightarrow> exn + Agent main_result" where
  "agent_main resolved t1 t2 t3 t4 t5 argv =
     (if length argv \<noteq> 4 then Inr (Returns 1 (''Usage: agent <host> <port> <agent_id>'' @ nl))
      else let h = argv ! 1; p = argv ! 2
           in catch_main (ebind (stoul (argv ! 3)) (\<lambda>v. agent_start resolved h p (new_Agent t1 t2 t3 t4 t5 (ucast v)))))"

text \<open>
  The port goes through \<^verbatim>\<open>static_cast<short>\<close> and back to the unsigned port number of the endpoint: its low 16 bits. \<open>bind_port\<close> is
  what the operating system answers to opening an acceptor; the second one is the metrics server's.
\<close>

definition controller_main ::
    "(u16 \<Rightarrow> exn + unit) \<Rightarrow> 'j json_api \<Rightarrow> MessageType \<Rightarrow> 'j policy_file \<Rightarrow> MessagePool \<Rightarrow> string list \<Rightarrow> exn + (u16 \<times> Controller) main_result" where
  "controller_main bind_port J junk f ms argv =
     catch_main (ebind (if 1 < length argv then ebind (stoi (argv ! 1)) (\<lambda>v. Inr (ucast v)) else Inr 9000) (\<lambda>port.
       ebind (bind_port port) (\<lambda>_. ebind (bind_port 9090) (\<lambda>_. ebind (new_Controller J junk f ms) (\<lambda>w. Inr (port, w))))))"

text \<open>C38: numbers on the command line. An agent started with the decimal number \<open>n\<close> has the id \<open>n\<close> modulo \<open>2\<close> to the \<open>32\<close>, so different
  numbers may give the same id; from \<open>2\<close> to the \<open>64\<close> on it prints \<^verbatim>\<open>Exception: stoul\<close> and returns 0, the code of success. A controller
  listens on the given port modulo \<open>2\<close> to the \<open>16\<close>, so on every valid port as given, although the code stores it in a \<^verbatim>\<open>short\<close>; from
  \<open>2\<close> to the \<open>31\<close> on it prints \<^verbatim>\<open>Exception: stoi\<close> and returns 0.\<close>

theorem numbers_on_command_line:
  assumes "new_Controller J junk f ms = Inr w"
  shows "agent_main (Inr ()) t1 t2 t3 t4 t5 [prog, h, p, dec n] =
      Inr (if n < 2 ^ 64
           then Event_loop ((new_Agent t1 t2 t3 t4 t5 (word_of_nat (n mod 2 ^ 32)))\<lparr>host := h, port := p, connecting := True\<rparr>)
           else Returns 0 (''Exception: stoul'' @ nl)) \<and>
    controller_main (\<lambda>_. Inr ()) J junk f ms [prog, dec n] =
      Inr (if n < 2 ^ 31 then Event_loop (word_of_nat (n mod 2 ^ 16), w) else Returns 0 (''Exception: stoi'' @ nl))"
proof
  have id: "(ucast (word_of_nat n :: u64) :: u32) = word_of_nat (n mod 2 ^ 32)"
    by (simp add: unsigned_of_nat word_of_nat_eq_iff take_bit_take_bit) (simp add: take_bit_eq_mod)
  then show "agent_main (Inr ()) t1 t2 t3 t4 t5 [prog, h, p, dec n] =
      Inr (if n < 2 ^ 64
           then Event_loop ((new_Agent t1 t2 t3 t4 t5 (word_of_nat (n mod 2 ^ 32)))\<lparr>host := h, port := p, connecting := True\<rparr>)
           else Returns 0 (''Exception: stoul'' @ nl))"
    by (simp add: agent_main_def catch_main_def stoul_dec agent_start_def Let_def)
  have "dec n = dec_int (int n)"
    by (simp add: dec_int_def)
  moreover have "(ucast (word_of_int (int n) :: i32) :: u16) = word_of_nat (n mod 2 ^ 16)"
    by (simp add: unsigned_of_nat word_of_nat_eq_iff take_bit_take_bit) (simp add: take_bit_eq_mod)
  ultimately show "controller_main (\<lambda>_. Inr ()) J junk f ms [prog, dec n] =
      Inr (if n < 2 ^ 31 then Event_loop (word_of_nat (n mod 2 ^ 16), w) else Returns 0 (''Exception: stoi'' @ nl))"
    using assms by (simp add: controller_main_def catch_main_def stoi_dec_int)
qed

theorem numbers_on_command_line_witness:
  "agent_main (Inr ()) 0 0 0 0 0 [''agent'', ''h'', ''9000'', dec 4294967303] =
     Inr (Event_loop ((new_Agent 0 0 0 0 0 7)\<lparr>host := ''h'', port := ''9000'', connecting := True\<rparr>))"
proof -
  have "new_Controller no_json HELLO no_file empty_pool = Inr fresh_ctl"
    by (simp add: new_Controller_def loadPolicies_def no_file_def startHealthCheck_def doAccept_def fresh_ctl_def)
  from numbers_on_command_line [OF this, of 0 0 0 0 0 "''agent''" "''h''" "''9000''" 4294967303]
  show ?thesis by simp
qed

end
