(* ===== verification/Spec2Isabelle.thy ===== *)
theory Spec2Isabelle
  imports Crc_Remainder Fleet_Late Fleet_Bytes Fleet_Shutdown Policy_Files Entry_Points
begin

text \<open>
  Verification of a controller/agent system in C++ (paths below are under \<^verbatim>\<open>src/\<close>). Agents connect to one controller over
  TCP, register, send heartbeats and load reports; every two seconds the controller drops agents it no longer hears, averages
  the reported loads, and sends mode commands according to policies it reads from a JSON file. Commands are acknowledged,
  resent with growing waits, and given up after the fifth resend. A second port serves counters as text.

  \<^bold>\<open>The parts and the theories that model them.\<close>

  \<^item> \<open>Prelude\<close>: machine integers, byte buffers, time, exceptions and undefined behaviour as values of \<open>exn\<close>, the containers.
    \<open>Decimal\<close>: what the standard library does to print integers and doubles and to read integers.
  \<^item> \<open>ByteSerializer\<close> (\<^verbatim>\<open>include/core/utils/ByteSerializer.hpp\<close>), \<open>Messages\<close> (\<^verbatim>\<open>Header.hpp\<close>, \<^verbatim>\<open>Message.hpp\<close>, \<^verbatim>\<open>MessageType.hpp\<close>),
    \<open>Crc32\<close> and \<open>Binary_Parser\<close> (\<^verbatim>\<open>src/core/message/BinaryMessageParser.cpp\<close>), \<open>Message_Pool\<close> (\<^verbatim>\<open>MessagePool.hpp\<close>), \<open>Payloads\<close>
    (\<^verbatim>\<open>src/core/message/payload/\<close>): the wire format, byte by byte. \<open>Crc_Remainder\<close>: the checksum against the division of polynomials
    it stands for.
  \<^item> \<open>Tcp_Comm\<close> (\<^verbatim>\<open>src/core/comm/TcpComm.cpp\<close>): the read loop and the write queue of a connection. \<open>Arrivals\<close>: a connection
    fed with frames does to its client what calling the handler on the decoded messages does.
  \<^item> \<open>Float32\<close> and \<open>State_Store\<close> (\<^verbatim>\<open>src/controller/StateStore.cpp\<close>): the last report of every agent and the average load in
    single precision, on bit patterns.
  \<^item> \<open>Session\<close> (\<^verbatim>\<open>src/controller/AgentTcpSession.cpp\<close>, \<^verbatim>\<open>MetricsTracker.hpp\<close>): one agent as the controller sees it.
  \<^item> \<open>Metrics_Server\<close> (\<^verbatim>\<open>src/controller/MetricsServer.cpp\<close>): the second port.
  \<^item> \<open>Policies\<close> (\<^verbatim>\<open>Policy.hpp\<close> and the JSON part of \<^verbatim>\<open>Controller::loadPolicies\<close>); \<open>Policy_Files\<close>: what a
    well-formed file is loaded to.
  \<^item> \<open>Fleet_Controller\<close> (\<^verbatim>\<open>src/controller/Controller.cpp\<close>): every handler of the controller. \<open>Fleet_Invariant\<close>: the
    registration invariant and that each handler keeps it; \<open>Fleet_Runs\<close>: the steps (\<open>ctl_step\<close>) and runs (\<open>ctl_run\<close>) of the controller; \<open>Fleet_Observe\<close>: what the handlers leave alone;
    \<open>Fleet_Loops\<close>: the loops over all sessions; \<open>Fleet_Properties\<close> and \<open>Fleet_Service\<close>: what holds in every state a run reaches; \<open>Fleet_Roster\<close> and
    \<open>Fleet_Vitals\<close>: the registered agents and their heartbeats as an abstract census, and its histories; \<open>Fleet_Policy\<close>: the policies of
    \<^verbatim>\<open>configs/policy.json\<close> over a sequence of health checks; \<open>Fleet_Late\<close>: an agent that registers while they are switched on;
    \<open>Fleet_Shutdown\<close>: what shutting down hands to the connections.
  \<^item> \<open>Fleet_Agent\<close> (\<^verbatim>\<open>src/agent/Agent.cpp\<close>) and \<open>Fleet_Typing\<close>: the agent, its runs, and the frames it can send; \<open>Fleet_Commands\<close>: the
    agent at the end of a stream of commands.
  \<^item> \<open>Fleet_Dispatch\<close>: the frames the controller can send; \<open>Fleet_Streams\<close>: both directions of a connection as byte streams;
    \<open>Fleet_Link\<close>: a controller and an agent joined by a connection as one transition system (\<open>link_step\<close>); \<open>Fleet_Bytes\<close>: both read loops on
    arbitrary bytes.
  \<^item> \<open>Entry_Points\<close> (\<^verbatim>\<open>src/controller/main.cpp\<close>, \<^verbatim>\<open>src/agent/main.cpp\<close>).
  \<^item> This theory: controller and agent together, over encoded frames.

  \<^bold>\<open>How the code is represented.\<close> A class is a record of its members, trailing underscores dropped; a method is a function from
  the record (and the arguments) to the updated record. The event loop runs one handler at a time, so each completion handler of
  asio is one function, and an operation the code starts is recorded in the state (\<open>reading\<close>, \<open>writing\<close>, \<open>posted\<close>, \<open>accept_pending\<close>,
  \<open>timer_pending\<close>, \<open>waiting\<close>, \<open>server_accepting\<close>) until its handler runs. \<open>writing\<close> is the list of all writes
  outstanding, so that only the code's own queue keeps two from overlapping. \<open>ctl_run\<close>, \<open>agent_run\<close>, \<open>tcp_run\<close> and \<open>session_run\<close> are the
  states reached by any order of handlers; they allow somewhat more than asio does (closures of a connection in any order, a
  handler called with any message or error, a write that completes although the socket was closed meanwhile). \<open>drain\<close> is the run of one
  connection on its own; there a write on a closed socket is aborted and puts nothing on the wire. \<open>ctl_run\<close> has the set of messages the owner of the command bus may send as a parameter;
  the program itself never uses the bus. \<open>getStore\<close> hands out a reference to the store, so a step of its owner writes through it
  (\<open>putStore\<close>). In \<open>link_step\<close> either side takes a step of its own or the network hands the next frame to a side whose socket is open; what a
  side has written is never taken back. Connections are numbered and shared by number; sessions are numbered, owned by the
  session table and reached weakly from connections; messages the sessions share by pointer live in the store of the message
  pool, so that a later write to the object shows in a resend. The agent's five messages have one owner and are encoded when
  sent, so they are values. Readings of the clocks, the random load, the outcome of name resolution and the bytes a read
  delivers are arguments. A \<^verbatim>\<open>std::unordered_map\<close> is an association list in iteration order, which runs may permute; a
  \<^verbatim>\<open>std::map\<close> is one sorted by key. Exceptions are values of \<open>exn\<close>; undefined behaviour (a read outside a buffer, a null pointer, a
  destroyed object) is a value of \<open>exn\<close> that no \<^verbatim>\<open>catch\<close> catches. The JSON library and the file system are parameters
  (\<open>json_api\<close>, \<open>policy_file\<close>), as is the answer to binding a port.

  \<^bold>\<open>Interfaces.\<close> The locales are the contracts one part relies on: \<open>fixed_codec\<close> (a big-endian field), \<open>payload_codec\<close> and
  \<open>overwriting_payload\<close> (\<^verbatim>\<open>IPayload\<close>), \<open>message_parser\<close> (\<^verbatim>\<open>IMessageParser\<close>), \<open>object_pool\<close>, \<open>state_store\<close> (\<^verbatim>\<open>IStateStore\<close>), \<open>agent_comm\<close>
  (\<^verbatim>\<open>IAgentComm\<close>), \<open>tcp_client\<close> (handlers and an invariant, which everything a connection does then keeps), \<open>frame_reader\<close> (a parser and a handler
  that does not look at the reading side of its connection), \<open>safe_handlers\<close> (handlers whose exceptions are ordinary ones),
  \<open>read_steps\<close> (what both read completions keep), \<open>session_loop\<close> (a loop
  whose body touches one session), \<open>observation\<close> and \<open>policy_observation\<close> (a part of the state that the primitives of the handlers, and then
  of the policies, do not change), and \<open>json_values\<close> (the JSON library reads back the values of a document). Each is interpreted on the model's own
  definitions; \<open>json_values\<close>, whose library is not part of the program, on an implementation of its accessors.

  \<^bold>\<open>What is shown.\<close> Wire format: frames decode to the message they were made from, a stream decodes in one way only, a burst of up
  to four bytes is always refused, the checksum is the CRC-32 of the standard, and a decoded frame is exactly its bytes.
  Connection: a stream of frames reaches the handler as the messages sent, in order (two reads per message are enough fuel for
  \<open>feed\<close>); no frame is lost or reordered on the way out and no two writes overlap; a graceful close drains the queue first; whatever bytes arrive, neither
  side reads or writes outside a buffer. Session: the retry schedule of any number of pending commands under checks at any times, and its invariant. Controller: registration is consistent in every reachable state and refines a census of agents, their
  connections and their last heartbeats; an agent stays registered as long as every health check finds it heard in time, and is dropped by the first
  that does not; a policy commands exactly the healthy; a configuration file is loaded to the policies it describes; the shipped policies are a switch with hysteresis that uses one command id per change; everything the controller sends is well typed; the average of loads between 0
  and 100 is between 0 and 100; the controller keeps accepting until it is shut down; shutdown sends one frame per pending command and closes gracefully. Agent: one answer per
  message; reconnecting ends; everything it sends is well typed; a stream of commands leaves it in the mode a two-line specification
  says, with one answer per command. Together: a command is applied once and settled, a lost answer included; an agent that connects is
  registered; in every interleaving of a controller, an agent and the network between them the agent's mode is explained by the commands it
  was handed, and every frame on its way can still be handed over without an error on either side. Some theorems show where the code does not do what it means to: the message object shared by all pending commands, a connection counted twice, a load that is not a number, the
  null pointer after a failed connection, the agent that reconnects while shutting down, the accept that outlives the metrics
  server, the agent that registers late and is not told the mode whatever else happens while the load stays high, and the first command of a restarted controller.

  \<^bold>\<open>Not modelled.\<close> Logging; mutexes (one thread runs the event loop); allocation failure; the moved-from and reopened \<^verbatim>\<open>socket_\<close>
  member of the agent and \<^verbatim>\<open>retry_timer_\<close>, which is never started; the members of the agent that nothing reads (\<^verbatim>\<open>cpu_load_\<close>,
  \<^verbatim>\<open>temperature_\<close>); \<^verbatim>\<open>CmdStartPayload\<close> and \<^verbatim>\<open>CmdStopPayload\<close>, which are declared but never defined; \<^verbatim>\<open>IPolicyEngine\<close>, which
  nothing implements; tests, containers, scripts and build files.
\<close>

section \<open>Controller and agent together\<close>

text \<open>The controller takes an \<^verbatim>\<open>ACK\<close> and a \<^verbatim>\<open>NACK\<close> as the end of the command they name.\<close>

lemma reply_settles:
  assumes l: "lock_context i w = Some (n, s)"
    and r: "msg_type (header r) = ACK \<and> payload r = Ack_serialize \<lparr>ack_cmd_id = hid\<rparr> \<or>
      msg_type (header r) = NACK \<and> payload r = Nack_serialize \<lparr>nack_cmd_id = hid, nack_reason = reason\<rparr>"
  shows "\<exists>w' s'. ctl_onMessage now ms i r w = (None, w') \<and> sess w' n = Some s' \<and>
    map_of (pending_cmds s') = (map_of (pending_cmds s))(hid := None)"
proof -
  obtain s' w' where h: "handleAck now hid s w = (s', w')" by force
  have "map_of (pending_cmds s') = (map_of (pending_cmds s))(hid := None)"
    using h by (auto simp: handleAck_def Let_def delete_conv' fun_upd_idem split: option.splits)
  moreover have "ctl_onMessage now ms i r w = (None, put_session n s' w')"
    using r
  proof
    assume "msg_type (header r) = ACK \<and> payload r = Ack_serialize \<lparr>ack_cmd_id = hid\<rparr>"
    then show ?thesis
      using l h by (simp add: ctl_onMessage_def ack.des_ser message_type_defs)
  next
    assume "msg_type (header r) = NACK \<and> payload r = Nack_serialize \<lparr>nack_cmd_id = hid, nack_reason = reason\<rparr>"
    then show ?thesis
      using l h by (simp add: ctl_onMessage_def nack.des_ser message_type_defs)
  qed
  ultimately show ?thesis by simp
qed

text \<open>C1: a mode command survives the round trip, and a lost answer does no harm. The frame the controller sends is decoded by the
  agent to the command it was made from. The agent applies it if its id is new and answers with one frame; decoded by the
  controller, that frame ends the command of this id and no other. If the command had been applied before (the answer was
  lost and the controller sent it again), the mode stays as it is and the answer settles the command all the same.\<close>

theorem command_settled_end_to_end:
  assumes m: "wf_message m" "msg_type (header m) = CMD_SET_MODE" "payload m = CmdSetMode_serialize \<lparr>set_mode = mode\<rparr>"
    and a: "agent_run (BinaryMessageParser u) a" "agent_conn a = Some j" "conns a j = Some c"
    and w: "lock_context i w = Some (n, s)"
  shows "\<exists>a' r w' s'. deserialize t1 (serialize m @ rest) = Inr (Some (sealed m), length (serialize m)) \<and>
    agent_onMessage (BinaryMessageParser u) t2 j (sealed m) a = (None, a') \<and>
    current_mode a' = (if header_id (header m) = cmd_set_mode_header_id a then current_mode a else mode) \<and>
    conns a' j = Some (c\<lparr>posted := posted c @ [Push_frame (serialize r)]\<rparr>) \<and>
    deserialize t3 (serialize r @ rest') = Inr (Some (sealed r), length (serialize r)) \<and>
    ctl_onMessage now ms i (sealed r) w = (None, w') \<and> sess w' n = Some s' \<and>
    map_of (pending_cmds s') = (map_of (pending_cmds s))(header_id (header m) := None)"
proof -
  let ?hid = "header_id (header m)" and ?ok = "header_id (header m) \<noteq> cmd_set_mode_header_id a"
  have len: "4 \<le> length (payload m)" and mode: "CmdSetMode_deserialize (payload m) CmdSetMode_fresh = Inr \<lparr>set_mode = mode\<rparr>"
    using set_mode.ser_long [of "\<lparr>set_mode = mode\<rparr>"] set_mode.des_ser [of "\<lparr>set_mode = mode\<rparr>"] by (simp_all only: m(3))
  have ok: "?ok \<longleftrightarrow> msg_type (header (sealed m)) = CMD_SET_MODE \<and> header_id (header (sealed m)) \<noteq> cmd_set_mode_header_id a \<and>
      4 \<le> length (payload (sealed m))"
    using m(2) len by simp
  obtain a' r where step: "agent_onMessage (BinaryMessageParser u) t2 j (sealed m) a = (None, a')"
      "conns a' j = Some (c\<lparr>posted := posted c @ [Push_frame (parser_serialize (BinaryMessageParser u) r)]\<rparr>)" "wf_message r"
    and ans: "if ?ok then msg_type (header r) = ACK \<and> payload r = Ack_serialize \<lparr>ack_cmd_id = header_id (header (sealed m))\<rparr> \<and>
        CmdSetMode_deserialize (payload (sealed m)) CmdSetMode_fresh = Inr \<lparr>set_mode = current_mode a'\<rparr> \<and> last_cmd_rc a' = 0 \<and>
        cmd_set_mode_header_id a' = header_id (header (sealed m))
      else msg_type (header r) = NACK \<and> current_mode a' = current_mode a \<and>
        (\<exists>reason. payload r = Nack_serialize \<lparr>nack_cmd_id = header_id (header (sealed m)), nack_reason = reason\<rparr>)"
    using inv_answers [OF agent_run_inv [OF a(1)] a(2,3) ok, of "BinaryMessageParser u" t2 j] by blast
  from ans obtain reason where "msg_type (header (sealed r)) = ACK \<and> payload (sealed r) = Ack_serialize \<lparr>ack_cmd_id = ?hid\<rparr> \<or>
      msg_type (header (sealed r)) = NACK \<and> payload (sealed r) = Nack_serialize \<lparr>nack_cmd_id = ?hid, nack_reason = reason\<rparr>"
    by (auto split: if_splits)
  from reply_settles [OF w this, of now ms] obtain w' s' where "ctl_onMessage now ms i (sealed r) w = (None, w')" "sess w' n = Some s'"
      "map_of (pending_cmds s') = (map_of (pending_cmds s))(?hid := None)"
    by blast
  moreover have "current_mode a' = (if ?hid = cmd_set_mode_header_id a then current_mode a else mode)"
    using ans mode by (auto split: if_splits)
  ultimately show ?thesis
    using step(1) step(2) [unfolded BinaryMessageParser_simps] deserialize_serialize [OF m(1), of t1 rest]
      deserialize_serialize [OF step(3), of t3 rest'] by blast
qed

theorem command_settled_end_to_end_witness:
  "\<exists>a'. agent_onMessage (BinaryMessageParser 0) 0 0 (sealed (new_Message 0 CMD_SET_MODE [0, 0, 0, 1] 0 9 0)) sample_agent = (None, a') \<and>
     current_mode a' = 1"
proof -
  let ?m = "new_Message 0 CMD_SET_MODE [0, 0, 0, 1] 0 9 0"
  obtain c where c: "conns sample_agent 0 = Some c"
    using sample_agent_simps(2) by auto
  have m: "wf_message ?m" "msg_type (header ?m) = CMD_SET_MODE" "payload ?m = CmdSetMode_serialize \<lparr>set_mode = 1\<rparr>"
    by (simp_all add: wf_message_def new_Message_def CmdSetMode_serialize_def write_u32_be_def)
  have l: "lock_context 0 sample_ctl = Some (0, sample_session)"
    by (simp add: lock_context_def sample_ctl_simps getContext_def setContext_def)
  show ?thesis
    using command_settled_end_to_end [OF m sample_agent_run sample_agent_simps(1) c l, of 0 "[]" 0 0 "[]" 0 0] sample_agent_simps(3)
    by (auto simp: new_Message_def)
qed

text \<open>C19: an agent that gets through registers: a successful connection attempt posts exactly one frame, whose decoding makes the
  controller map the agent's id to the session of the connection it arrived on.\<close>

theorem connecting_agent_registers:
  assumes a: "agent_run (BinaryMessageParser u) a" "connect_done (BinaryMessageParser u) t success a = Inr a'"
    and w: "ctl_run P J junk B w" "conns w i = Some c" "lock_context i w = None"
  shows "\<exists>j d m w' n s. agent_conn a' = Some j \<and> conns a' j = Some d \<and> posted d = [Push_frame (serialize m)] \<and>
    deserialize t1 (serialize m @ rest) = Inr (Some (sealed m), length (serialize m)) \<and>
    ctl_onMessage now ms i (sealed m) w = (None, w') \<and>
    lock_context i w' = Some (n, s) \<and> map_of (sessions w') (self_id a) = Some n \<and> session_id s = self_id a"
proof -
  let ?pl = "Hello_serialize \<lparr>hello_agent_id = self_id a, hello_version = 1\<rparr>"
  let ?m = "fill_message ?pl (self_id a) (fst (getNextHeaderId HELLO a)) t (msg_hello a)"
  have "\<exists>d. agent_conn a' = Some (agent_next_conn a) \<and> conns a' (agent_next_conn a) = Some d \<and> posted d = [Push_frame (serialize ?m)]"
    using a(2) by (auto simp: connect_done_def sendHello_def send_unchecked_def getNextHeaderId_def startReporting_def set_timer_def
        tcp_defs new_TcpComm_def upd_conn_def split: if_splits)
  moreover have "wf_message ?m"
    by (rule wf_fill_message) (simp add: Hello_serialize_def)
  moreover have "msg_type (header (sealed ?m)) = HELLO" "payload (sealed ?m) = ?pl"
    using agent_run_inv [OF a(1)] by (simp_all add: agent_inv_def)
  moreover obtain r w' where "ctl_onMessage now ms i (sealed ?m) w = (r, w')" by force
  moreover from calculation obtain n s where "r = None" "lock_context i w' = Some (n, s)" "map_of (sessions w') (self_id a) = Some n"
      "session_id s = self_id a"
    using register_hello [OF w, of "sealed ?m" "\<lparr>hello_agent_id = self_id a, hello_version = 1\<rparr>" now ms r w'] by auto
  ultimately show ?thesis
    using deserialize_serialize [of ?m t1 rest] by blast
qed

theorem connecting_agent_registers_witness:
  "\<exists>m w' n. deserialize 0 (serialize m @ []) = Inr (Some (sealed m), length (serialize m)) \<and>
     ctl_onMessage 0 0 0 (sealed m) (accept_done 0 0 success fresh_ctl) = (None, w') \<and> map_of (sessions w') 7 = Some n"
proof -
  have run: "ctl_run (BinaryMessageParser 0) no_json HELLO {} (accept_done 0 0 success fresh_ctl)"
    by (rule ctl_accept [OF fresh_ctl_run]) (simp add: fresh_ctl_def)
  have start: "agent_run (BinaryMessageParser 0) ((new_Agent 0 0 0 0 0 7)\<lparr>host := ''h'', port := ''9000'', connecting := True\<rparr>)"
    by (rule ag_start [OF ag_new, where r = "Inr ()" and h = "''h''" and p = "''9000''"]) (simp add: agent_start_def)
  have c: "conns (accept_done 0 0 success fresh_ctl) 0 = Some ready_conn"
    by (simp add: accepted_simps)
  show ?thesis
    using connecting_agent_registers [OF start sample_agent_connected run c accepted_simps(2), of 0 "[]" 0 0]
    by (auto simp: new_Agent_def)
qed

text \<open>C11: what an agent sends is well typed, and well-typed messages do not go wrong: every frame an agent ever puts on a connection
  encodes a message under its own id, of one of the five types an agent may send and with a payload of that type; it is decoded
  to that message, and in no state does the controller's handler throw on it.\<close>

theorem agent_frames_well_typed:
  assumes "agent_run (BinaryMessageParser u) a" "conns a i = Some c" "f \<in> outgoing c"
  shows "\<exists>m. f = serialize m \<and> agent_message (self_id a) m \<and>
    deserialize t (f @ rest) = Inr (Some (sealed m), length f) \<and>
    fst (ctl_onMessage now ms j (sealed m) w) = None"
proof -
  have "outgoing c \<subseteq> typed_frames (BinaryMessageParser u) (self_id a)"
    using agent_run_typed [OF assms(1)] assms(2) by (simp add: agent_typed_def)
  then obtain m where "f = serialize m" "agent_message (self_id a) m"
    using assms(3) by (auto simp: typed_frames_def)
  then show ?thesis
    using deserialize_serialize [of m t rest] agent_message_accepted by (auto simp: agent_message_def)
qed

theorem agent_frames_well_typed_witness:
  "\<exists>c f m. conns sample_agent 0 = Some c \<and> f \<in> outgoing c \<and> f = serialize m \<and> agent_message 7 m"
proof -
  have p: "outgoing c \<noteq> {} \<and> self_id sample_agent = 7" if "conns sample_agent 0 = Some c" for c
    using that
    by (auto simp: sample_agent_def connect_done_def sendHello_def send_unchecked_def getNextHeaderId_def new_Agent_def upd_conn_def Let_def
        startReporting_def set_timer_def tcp_defs outgoing_def)
  obtain c where c: "conns sample_agent 0 = Some c"
    using sample_agent_simps(2) by auto
  with p obtain f where "f \<in> outgoing c"
    by blast
  with agent_frames_well_typed [OF sample_agent_run c this] p [OF c] c show ?thesis
    by metis
qed

text \<open>C40: the first command of a restarted controller may be lost without a trace. A new controller numbers its commands from zero
  again, and an agent keeps the id of the last command across reconnects; if that id is zero, the agent takes the new
  controller's first command for a repetition and refuses it, its mode stays, and the controller drops the command all the
  same when the refusal arrives.\<close>

theorem restarted_controller_ignored:
  assumes start: "new_Controller J junk f ms0 = Inr w0"
    and a: "agent_run (BinaryMessageParser u) a" "agent_conn a = Some j" "conns a j = Some c" "cmd_set_mode_header_id a = 0"
    and m: "mode_command m" "header_id (header m) = fst (getNextId CMD_SET_MODE w0)"
    and w: "lock_context i w = Some (n, s)"
  shows "\<exists>a' r w' s'. agent_onMessage (BinaryMessageParser u) t j (sealed m) a = (None, a') \<and> current_mode a' = current_mode a \<and>
    conns a' j = Some (c\<lparr>posted := posted c @ [Push_frame (serialize r)]\<rparr>) \<and> msg_type (header r) = NACK \<and>
    ctl_onMessage now ms i (sealed r) w = (None, w') \<and> sess w' n = Some s' \<and> map_of (pending_cmds s') (header_id (header m)) = None"
proof -
  have "ctl_counters w0 = []"
    using start by (auto simp: new_Controller_def loadPolicies_def startHealthCheck_def doAccept_def err_simps Let_def
        split: sum.splits bool.splits if_splits)
  then have h: "header_id (header m) = 0"
    using m(2) by (simp add: getNextId_def Let_def)
  obtain h' md where cm: "command_of m = (h', md)" by force
  with h have h': "h' = 0" by (simp add: command_of_def)
  obtain a' r where step: "agent_onMessage (BinaryMessageParser u) t j (sealed m) a = (None, a')"
      "conns a' j = Some (c\<lparr>posted := posted c @ [Push_frame (parser_serialize (BinaryMessageParser u) r)]\<rparr>)" "wf_message r"
      "is_reply (h' \<noteq> cmd_set_mode_header_id a, h') r"
      "(cmd_set_mode_header_id a', current_mode a') = follow (h', md) (cmd_set_mode_header_id a, current_mode a)"
    using command_step [OF agent_run_inv [OF a(1)] a(2,3) m(1) cm, of "BinaryMessageParser u" t] by blast
  then obtain reason where r: "msg_type (header r) = NACK" "payload r = Nack_serialize \<lparr>nack_cmd_id = 0, nack_reason = reason\<rparr>"
    using a(4) h' by (auto simp: is_reply_def)
  then have "msg_type (header (sealed r)) = ACK \<and> payload (sealed r) = Ack_serialize \<lparr>ack_cmd_id = 0\<rparr> \<or>
      msg_type (header (sealed r)) = NACK \<and> payload (sealed r) = Nack_serialize \<lparr>nack_cmd_id = 0, nack_reason = reason\<rparr>"
    by simp
  from reply_settles [OF w this, of now ms] obtain w' s' where "ctl_onMessage now ms i (sealed r) w = (None, w')" "sess w' n = Some s'"
      "map_of (pending_cmds s') = (map_of (pending_cmds s))(0 := None)"
    by blast
  moreover have "current_mode a' = current_mode a"
    using step(5) a(4) h' by (simp add: follow_def)
  ultimately show ?thesis
    using step(1,2) r(1) h by auto
qed

theorem restarted_controller_ignored_witness:
  "\<exists>a a'. agent_onMessage (BinaryMessageParser 0) 0 0 (new_Message 0 CMD_SET_MODE [0, 0, 0, 1] 0 0 0) sample_agent = (None, a) \<and> current_mode a = 1 \<and>
     agent_onMessage (BinaryMessageParser 0) 0 0 (sealed (new_Message 0 CMD_SET_MODE [0, 0, 0, 0] 0 0 0)) a = (None, a') \<and> current_mode a' = 1"
proof -
  let ?P = "BinaryMessageParser 0" and ?m1 = "new_Message 0 CMD_SET_MODE [0, 0, 0, 1] 0 0 0" and ?m = "new_Message 0 CMD_SET_MODE [0, 0, 0, 0] 0 0 0"
  obtain c where c: "conns sample_agent 0 = Some c"
    using sample_agent_simps(2) by auto
  have cmd: "mode_command (new_Message 0 CMD_SET_MODE [0, 0, 0, x] 0 0 0)" "command_of (new_Message 0 CMD_SET_MODE [0, 0, 0, x] 0 0 0) = (0, ucast x)" for x
    by (simp_all add: mode_command_def wf_message_def new_Message_def command_of_def CmdSetMode_deserialize_def CmdSetMode_fresh_def
        read_u32_be_def byte_at_def)
  have seal: "agent_onMessage ?P 0 0 (sealed ?m1) b = agent_onMessage ?P 0 0 ?m1 b" for b
    by (simp add: agent_onMessage_def Let_def split: sum.split)
  obtain a r where a: "agent_onMessage ?P 0 0 ?m1 sample_agent = (None, a)" "agent_conn a = Some 0"
      "conns a 0 = Some (c\<lparr>posted := posted c @ [Push_frame (parser_serialize ?P r)]\<rparr>)" "cmd_set_mode_header_id a = 0" "current_mode a = 1"
    using command_step [OF agent_run_inv [OF sample_agent_run] sample_agent_simps(1) c cmd(1) cmd(2), of ?P 0 1]
    by (auto simp: seal follow_def sample_agent_simps)
  have run: "agent_run ?P a"
    using sample_agent_run a(1) by (rule ag_message)
  have start: "new_Controller no_json HELLO no_file empty_pool = Inr fresh_ctl"
    by (simp add: new_Controller_def loadPolicies_def no_file_def startHealthCheck_def doAccept_def fresh_ctl_def)
  have id: "header_id (header ?m) = fst (getNextId CMD_SET_MODE fresh_ctl)"
    by (simp add: new_Message_def getNextId_def fresh_ctl_def)
  have l: "lock_context 0 sample_ctl = Some (0, sample_session)"
    by (simp add: lock_context_def sample_ctl_simps getContext_def setContext_def)
  show ?thesis
    using restarted_controller_ignored [OF start run a(2,3,4) cmd(1) id l, of 0 0 0] a(1,5) by auto
qed

end
